theory Spec2Isabelle
  imports Main "HOL-Library.Char_ord"
begin

chapter \<open>The model\<close>

text \<open>
  A shallow embedding of the transcoding core of the proxy: the switch-signal detector and
  the fold-back of \<^verbatim>\<open>src/mcp/claudeApiMcp.js\<close>, the request transcoder of
  \<^verbatim>\<open>src/transform/claude/ClaudeRequestIn.js\<close>, the schema sanitizer, the bridge tokenizer
  and the response transcoder.

  Conventions. A JavaScript string is a \<^typ>\<open>string\<close> that holds its UTF-8 encoding, the
  bytes that \<^verbatim>\<open>TextEncoder\<close> writes for it, one \<^typ>\<open>char\<close> a byte; a string with an
  unpaired surrogate has no such encoding and is not represented. Emptiness, equality,
  \<^verbatim>\<open>startsWith\<close>, \<^verbatim>\<open>includes\<close>, \<^verbatim>\<open>indexOf\<close>, \<^verbatim>\<open>split\<close> and cutting at a position so found
  are the same on the encoding as on the string, because no encoded character begins
  inside another. A value that may be \<^verbatim>\<open>undefined\<close> is an \<^typ>\<open>'a option\<close>; an index that
  may be \<^verbatim>\<open>-1\<close> is a \<^typ>\<open>nat option\<close>. A parsed JSON document is a \<open>json\<close> tree whose
  objects list their entries in the order of \<^verbatim>\<open>Object.entries\<close>, each key once.
\<close>

section \<open>JavaScript strings\<close>

definition startsWith :: "string \<Rightarrow> string \<Rightarrow> bool" where
  "startsWith s p = (take (length p) s = p)"

fun str_includes :: "string \<Rightarrow> string \<Rightarrow> bool" where
  "str_includes [] m = (m = [])"
| "str_includes (c # cs) m = (startsWith (c # cs) m \<or> str_includes cs m)"

text \<open>\<^verbatim>\<open>s.split(sep)\<close> for a separator of at least one character.\<close>

fun split_go :: "char \<Rightarrow> string \<Rightarrow> string \<Rightarrow> string \<Rightarrow> string list" where
  "split_go s ss acc [] = [rev acc]"
| "split_go s ss acc (c # cs) =
     (if c = s \<and> startsWith cs ss
      then rev acc # split_go s ss [] (drop (length ss) cs)
      else split_go s ss (c # acc) cs)"

definition split :: "string \<Rightarrow> string \<Rightarrow> string list" where
  "split str sep = (case sep of [] \<Rightarrow> map (\<lambda>c. [c]) str | s # ss \<Rightarrow> split_go s ss [] str)"

text \<open>
  The characters that \<^verbatim>\<open>trim\<close> and the class \<^verbatim>\<open>\s\<close> of a regular expression take for white
  space or a line terminator, each by its encoding: U+0009 to U+000D, U+0020, U+00A0,
  U+1680, U+2000 to U+200A, U+2028, U+2029, U+202F, U+205F, U+3000 and U+FEFF.
\<close>

definition whiteSpaceCodes :: "string list" where
  "whiteSpaceCodes =
     [[CHR 0x09], [CHR 0x0A], [CHR 0x0B], [CHR 0x0C], [CHR 0x0D], [CHR 0x20],
      [CHR 0xC2, CHR 0xA0], [CHR 0xE1, CHR 0x9A, CHR 0x80],
      [CHR 0xE2, CHR 0x80, CHR 0x80], [CHR 0xE2, CHR 0x80, CHR 0x81],
      [CHR 0xE2, CHR 0x80, CHR 0x82], [CHR 0xE2, CHR 0x80, CHR 0x83],
      [CHR 0xE2, CHR 0x80, CHR 0x84], [CHR 0xE2, CHR 0x80, CHR 0x85],
      [CHR 0xE2, CHR 0x80, CHR 0x86], [CHR 0xE2, CHR 0x80, CHR 0x87],
      [CHR 0xE2, CHR 0x80, CHR 0x88], [CHR 0xE2, CHR 0x80, CHR 0x89],
      [CHR 0xE2, CHR 0x80, CHR 0x8A], [CHR 0xE2, CHR 0x80, CHR 0xA8],
      [CHR 0xE2, CHR 0x80, CHR 0xA9], [CHR 0xE2, CHR 0x80, CHR 0xAF],
      [CHR 0xE2, CHR 0x81, CHR 0x9F], [CHR 0xE3, CHR 0x80, CHR 0x80],
      [CHR 0xEF, CHR 0xBB, CHR 0xBF]]"

text \<open>
  The number of bytes of the character at the head of \<open>s\<close> when it is one of \<open>codes\<close>, and
  \<open>0\<close> when it is none of them; \<open>stripLeading\<close> removes such characters from the head for
  as long as there is one.
\<close>

definition leadingLength :: "string list \<Rightarrow> string \<Rightarrow> nat" where
  "leadingLength codes s =
     (case find (startsWith s) codes of None \<Rightarrow> 0 | Some w \<Rightarrow> length w)"

function stripLeading :: "string list \<Rightarrow> string \<Rightarrow> string" where
  "stripLeading codes s =
     (if leadingLength codes s = 0 then s
      else stripLeading codes (drop (leadingLength codes s) s))"
  by pat_completeness auto
termination
proof (relation "measure (\<lambda>(codes, s). length s)")
  show "wf (measure (\<lambda>(codes, s). length s))" by simp
next
  fix codes :: "string list" and s :: string
  assume n: "leadingLength codes s \<noteq> 0"
  then obtain w where "find (startsWith s) codes = Some w" "length w \<noteq> 0"
    by (auto simp add: leadingLength_def split: option.splits)
  then have "startsWith s w" "w \<noteq> []"
    unfolding find_Some_iff by auto
  then have "s \<noteq> []" by (auto simp add: startsWith_def)
  then show "((codes, drop (leadingLength codes s) s), (codes, s))
      \<in> measure (\<lambda>(codes, s). length s)"
    using n by simp
qed

declare stripLeading.simps [simp del]

text \<open>\<^verbatim>\<open>s.trim()\<close>: the white space is stripped from the head, then from the tail.\<close>

definition trim :: "string \<Rightarrow> string" where
  "trim s = rev (stripLeading (map rev whiteSpaceCodes) (rev (stripLeading whiteSpaceCodes s)))"

text \<open>\<^verbatim>\<open>s.replace(/\s+/g, "")\<close>: every white space character is taken out.\<close>

function removeWhiteSpace :: "string \<Rightarrow> string" where
  "removeWhiteSpace s =
     (if s = [] then []
      else if leadingLength whiteSpaceCodes s = 0 then hd s # removeWhiteSpace (tl s)
      else removeWhiteSpace (drop (leadingLength whiteSpaceCodes s) s))"
  by pat_completeness auto
termination
  by (relation "measure length") auto

declare removeWhiteSpace.simps [simp del]

text \<open>
  The characters of a string, each with its bytes, as the iterator of a string yields them,
  and \<^verbatim>\<open>s.length\<close>, which counts two for a character outside the basic plane (four bytes).
\<close>

definition charWidth :: "char \<Rightarrow> nat" where
  "charWidth b =
     (if (of_char b :: nat) < 0x80 then 1 else if (of_char b :: nat) < 0xE0 then 2
      else if (of_char b :: nat) < 0xF0 then 3 else 4)"

function codePoints :: "string \<Rightarrow> string list" where
  "codePoints s =
     (if s = [] then []
      else take (charWidth (hd s)) s # codePoints (drop (charWidth (hd s)) s))"
  by pat_completeness auto
termination
  by (relation "measure length") (auto simp add: charWidth_def)

declare codePoints.simps [simp del]

definition utf16Length :: "string \<Rightarrow> nat" where
  "utf16Length s = sum_list (map (\<lambda>c. if length c = 4 then 2 else 1) (codePoints s))"

section \<open>TextDecoder and TextEncoder\<close>

text \<open>
  A string being its encoding, \<^verbatim>\<open>new TextEncoder().encode(s)\<close> is \<open>s\<close>. \<^verbatim>\<open>new TextDecoder()\<close>
  decodes UTF-8 with replacement: a byte sequence that is no character becomes U+FFFD, one
  for each maximal part of it that begins a character, and a byte order mark at the very
  beginning is dropped. Decoding the chunks of a stream one by one with
  \<^verbatim>\<open>{stream: true}\<close> and flushing is decoding their concatenation.
\<close>

definition replacementCharacter :: string where
  "replacementCharacter = [CHR 0xEF, CHR 0xBF, CHR 0xBD]"

definition byteOrderMark :: string where
  "byteOrderMark = [CHR 0xEF, CHR 0xBB, CHR 0xBF]"

definition inRange :: "char \<Rightarrow> nat \<Rightarrow> nat \<Rightarrow> bool" where
  "inRange c lo hi = (lo \<le> (of_char c :: nat) \<and> (of_char c :: nat) \<le> hi)"

text \<open>
  The decoder of the Encoding Standard as a function on the bytes that are left: a lead byte
  fixes how many bytes follow and the range of the first of them; a byte outside its range
  ends the character in error and is read again as a lead byte; the end of the input inside
  a character is one error.
\<close>

fun decodeBytes :: "string \<Rightarrow> string" where
  "decodeBytes [] = []"
| "decodeBytes (b # bs) =
     (if inRange b 0x00 0x7F then b # decodeBytes bs
      else if inRange b 0xC2 0xDF then
        (case bs of
           [] \<Rightarrow> replacementCharacter
         | c # cs \<Rightarrow>
             if inRange c 0x80 0xBF then b # c # decodeBytes cs
             else replacementCharacter @ decodeBytes bs)
      else if inRange b 0xE0 0xEF then
        (case bs of
           [] \<Rightarrow> replacementCharacter
         | c # cs \<Rightarrow>
             if inRange c (if b = CHR 0xE0 then 0xA0 else 0x80) (if b = CHR 0xED then 0x9F else 0xBF)
             then (case cs of
                     [] \<Rightarrow> replacementCharacter
                   | d # ds \<Rightarrow>
                       if inRange d 0x80 0xBF then b # c # d # decodeBytes ds
                       else replacementCharacter @ decodeBytes cs)
             else replacementCharacter @ decodeBytes bs)
      else if inRange b 0xF0 0xF4 then
        (case bs of
           [] \<Rightarrow> replacementCharacter
         | c # cs \<Rightarrow>
             if inRange c (if b = CHR 0xF0 then 0x90 else 0x80) (if b = CHR 0xF4 then 0x8F else 0xBF)
             then (case cs of
                     [] \<Rightarrow> replacementCharacter
                   | d # ds \<Rightarrow>
                       if inRange d 0x80 0xBF
                       then (case ds of
                               [] \<Rightarrow> replacementCharacter
                             | e # es \<Rightarrow>
                                 if inRange e 0x80 0xBF then b # c # d # e # decodeBytes es
                                 else replacementCharacter @ decodeBytes ds)
                       else replacementCharacter @ decodeBytes cs)
             else replacementCharacter @ decodeBytes bs)
      else replacementCharacter @ decodeBytes bs)"

definition textDecode :: "string \<Rightarrow> string" where
  "textDecode bytes =
     decodeBytes (if startsWith bytes byteOrderMark then drop 3 bytes else bytes)"

definition textEncode :: "string \<Rightarrow> string" where
  "textEncode s = s"

text \<open>
  Well-formed UTF-8, by the table of the Unicode Standard (Table 3-7): the byte sequences
  of the scalar values, with the second byte narrowed after \<^verbatim>\<open>E0\<close>, \<^verbatim>\<open>ED\<close>, \<^verbatim>\<open>F0\<close> and
  \<^verbatim>\<open>F4\<close>.
\<close>

fun wellFormedUtf8 :: "string \<Rightarrow> bool" where
  "wellFormedUtf8 [] = True"
| "wellFormedUtf8 [b] = inRange b 0x00 0x7F"
| "wellFormedUtf8 [b, c] =
     ((inRange b 0x00 0x7F \<and> inRange c 0x00 0x7F) \<or> (inRange b 0xC2 0xDF \<and> inRange c 0x80 0xBF))"
| "wellFormedUtf8 (b # c # d # rest) =
     ((inRange b 0x00 0x7F \<and> wellFormedUtf8 (c # d # rest))
      \<or> (inRange b 0xC2 0xDF \<and> inRange c 0x80 0xBF \<and> wellFormedUtf8 (d # rest))
      \<or> (((b = CHR 0xE0 \<and> inRange c 0xA0 0xBF) \<or> (inRange b 0xE1 0xEC \<and> inRange c 0x80 0xBF)
           \<or> (b = CHR 0xED \<and> inRange c 0x80 0x9F) \<or> (inRange b 0xEE 0xEF \<and> inRange c 0x80 0xBF))
          \<and> inRange d 0x80 0xBF \<and> wellFormedUtf8 rest)
      \<or> (((b = CHR 0xF0 \<and> inRange c 0x90 0xBF) \<or> (inRange b 0xF1 0xF3 \<and> inRange c 0x80 0xBF)
           \<or> (b = CHR 0xF4 \<and> inRange c 0x80 0x8F))
          \<and> inRange d 0x80 0xBF
          \<and> (case rest of [] \<Rightarrow> False | e # es \<Rightarrow> inRange e 0x80 0xBF \<and> wellFormedUtf8 es)))"

section \<open>JSON values\<close>

text \<open>
  Numbers are integers here (the numbers of a tool schema or of an event index); nothing
  below computes with them, and the text that the platform prints for one is a parameter
  where it is needed.
\<close>

datatype json =
    JNull
  | JBool bool
  | JNum int
  | JStr string
  | JArr "json list"
  | JObj "(string \<times> json) list"

text \<open>Property access \<^verbatim>\<open>v?.k\<close>: \<open>None\<close> is \<^verbatim>\<open>undefined\<close>.\<close>

fun jget :: "json \<Rightarrow> string \<Rightarrow> json option" where
  "jget (JObj kvs) k = map_of kvs k"
| "jget _ k = None"

definition jget2 :: "json \<Rightarrow> string \<Rightarrow> string \<Rightarrow> json option" where
  "jget2 v k1 k2 = (case jget v k1 of None \<Rightarrow> None | Some w \<Rightarrow> jget w k2)"

section \<open>The switch-signal detector (claudeApiMcp.js)\<close>

definition MCP_SWITCH_SIGNAL :: string where
  "MCP_SWITCH_SIGNAL = ''AG2API_SWITCH_TO_MCP_MODEL''"

text \<open>
  One chunk of the buffered stream (the text between two blank lines): the payload of its
  first \<^verbatim>\<open>data: \<close> line, when there is one and it is neither empty nor the end sentinel.
\<close>

definition chunkPayload :: "string \<Rightarrow> string option" where
  "chunkPayload chunk =
     (case find (\<lambda>l. startsWith l ''data: '') (split chunk [CHR 0x0A]) of
        None \<Rightarrow> None
      | Some dataLine \<Rightarrow>
          (let payload = trim (drop 6 dataLine)
           in if payload = [] \<or> payload = ''[DONE]'' then None else Some payload))"

text \<open>
  The strong trigger: a \<^verbatim>\<open>content_block_start\<close> event of a \<^verbatim>\<open>tool_use\<close> block whose name
  starts with \<^verbatim>\<open>mcp__\<close>.
\<close>

definition isMcpToolUseStart :: "json \<Rightarrow> bool" where
  "isMcpToolUseStart obj =
     (jget obj ''type'' = Some (JStr ''content_block_start'') \<and>
      jget2 obj ''content_block'' ''type'' = Some (JStr ''tool_use'') \<and>
      (case jget2 obj ''content_block'' ''name'' of
         Some (JStr name) \<Rightarrow> startsWith name ''mcp__''
       | _ \<Rightarrow> False))"

text \<open>The text an event adds to \<^verbatim>\<open>textOut\<close>: that of a \<^verbatim>\<open>text_delta\<close>, or nothing.\<close>

definition textDeltaOf :: "json \<Rightarrow> string" where
  "textDeltaOf obj =
     (if jget obj ''type'' = Some (JStr ''content_block_delta'')
      then (if jget2 obj ''delta'' ''type'' = Some (JStr ''text_delta'')
            then (case jget2 obj ''delta'' ''text'' of Some (JStr t) \<Rightarrow> t | _ \<Rightarrow> [])
            else [])
      else [])"

text \<open>
  The loop of \<^verbatim>\<open>hasMcpSwitchSignal\<close> over the chunks, with \<^verbatim>\<open>textOut\<close> as accumulator.
  \<^verbatim>\<open>JSON.parse\<close> is the parameter \<open>parse\<close>; \<open>None\<close> is its exception, which the loop
  catches and skips.
\<close>

fun scanChunks :: "(string \<Rightarrow> json option) \<Rightarrow> string list \<Rightarrow> string \<Rightarrow> bool" where
  "scanChunks parse [] textOut = str_includes textOut MCP_SWITCH_SIGNAL"
| "scanChunks parse (chunk # chunks) textOut =
     (case chunkPayload chunk of
        None \<Rightarrow> scanChunks parse chunks textOut
      | Some payload \<Rightarrow>
          (case parse payload of
             None \<Rightarrow> scanChunks parse chunks textOut
           | Some obj \<Rightarrow>
               if isMcpToolUseStart obj then True
               else scanChunks parse chunks (textOut @ textDeltaOf obj)))"

definition hasMcpSwitchSignal :: "(string \<Rightarrow> json option) \<Rightarrow> string \<Rightarrow> bool" where
  "hasMcpSwitchSignal parse transformedSseText =
     scanChunks parse (split transformedSseText [CHR 0x0A, CHR 0x0A]) []"

text \<open>The events of a buffered stream that the detector gets to see, in order.\<close>

definition parsedEvents :: "(string \<Rightarrow> json option) \<Rightarrow> string \<Rightarrow> json list" where
  "parsedEvents parse transformedSseText =
     List.map_filter (\<lambda>chunk. case chunkPayload chunk of None \<Rightarrow> None | Some p \<Rightarrow> parse p)
       (split transformedSseText [CHR 0x0A, CHR 0x0A])"

text \<open>
  A toy parser for five event payloads, and three streams: one whose marker is cut in two,
  one with the start of a bridged tool call and no text, and one with the start of a
  native tool call, a text block named like a bridged tool, and half of the marker.
\<close>

definition sampleParse :: "string \<Rightarrow> json option" where
  "sampleParse p =
     (if p = ''D1'' then Some (JObj [(''type'', JStr ''content_block_delta''),
          (''delta'', JObj [(''type'', JStr ''text_delta''), (''text'', JStr ''AG2API_SWITCH_'')])])
      else if p = ''D2'' then Some (JObj [(''type'', JStr ''content_block_delta''),
          (''delta'', JObj [(''type'', JStr ''text_delta''), (''text'', JStr ''TO_MCP_MODEL'')])])
      else if p = ''S1'' then Some (JObj [(''type'', JStr ''content_block_start''),
          (''content_block'', JObj [(''type'', JStr ''tool_use''), (''name'', JStr ''mcp__serena__find'')])])
      else if p = ''S2'' then Some (JObj [(''type'', JStr ''content_block_start''),
          (''content_block'', JObj [(''type'', JStr ''tool_use''), (''name'', JStr ''read_file'')])])
      else if p = ''S3'' then Some (JObj [(''type'', JStr ''content_block_start''),
          (''content_block'', JObj [(''type'', JStr ''text''), (''name'', JStr ''mcp__serena__find'')])])
      else None)"

definition sseEvent :: "string \<Rightarrow> string \<Rightarrow> string" where
  "sseEvent name payload =
     ''event: '' @ name @ [CHR 0x0A] @ ''data: '' @ payload @ [CHR 0x0A, CHR 0x0A]"

definition sampleStream :: string where
  "sampleStream = sseEvent ''content_block_delta'' ''D1'' @ sseEvent ''content_block_delta'' ''D2''"

definition bridgedToolStream :: string where
  "bridgedToolStream = sseEvent ''content_block_start'' ''S1''"

definition nativeToolStream :: string where
  "nativeToolStream = sseEvent ''content_block_start'' ''S2'' @ sseEvent ''content_block_start'' ''S3''
     @ sseEvent ''content_block_delta'' ''D1''"

section \<open>Messages, content items and backend parts\<close>

text \<open>
  A content item of a message of the client protocol. A field the source reads as
  \<^verbatim>\<open>typeof x === "string" ? x : ""\<close> is a \<^typ>\<open>string option\<close>, \<open>None\<close> standing for a
  missing or non-string value.
\<close>

datatype item =
    TextItem "string option"
  | ThinkingItem "string option" "string option"
  | RedactedThinkingItem "string option"
  | ImageItem "string option" "string option" "string option"
  | ToolUseItem "string option" "string option" "json option" "string option"
  | ToolResultItem "string option" "json option" bool
  | OtherItem

text \<open>
  \<open>ThinkingItem thinking signature\<close>; \<open>RedactedThinkingItem data\<close>;
  \<open>ImageItem source_type media_type data\<close>; \<open>ToolUseItem id name input signature\<close>;
  \<open>ToolResultItem tool_use_id content (is_error === true)\<close>.
\<close>

datatype content = ContentItems "item list" | ContentString string | ContentOther

record message =
  msg_role :: string
  msg_content :: content

text \<open>
  A part of the backend protocol, in a request as in a response: an object with optional
  fields.
\<close>

record function_call =
  fc_name :: "string option"
  fc_args :: "json option"
  fc_id :: "string option"

record function_response =
  fr_name :: "string option"
  fr_result :: string
  fr_is_error :: bool
  fr_content :: "json option"
  fr_id :: "string option"

record gpart =
  p_text :: "string option"
  p_thought :: bool
  p_thoughtSignature :: "string option"
  p_functionCall :: "function_call option"
  p_functionResponse :: "function_response option"
  p_inlineData :: "(string \<times> string) option"

definition emptyPart :: gpart where
  "emptyPart = \<lparr>p_text = None, p_thought = False, p_thoughtSignature = None,
     p_functionCall = None, p_functionResponse = None, p_inlineData = None\<rparr>"

definition textPart :: "string \<Rightarrow> gpart" where
  "textPart t = emptyPart\<lparr>p_text := Some t\<rparr>"


text \<open>Truthiness of an optional string: defined and not empty.\<close>

fun truthy :: "string option \<Rightarrow> bool" where
  "truthy None = False"
| "truthy (Some s) = (s \<noteq> [])"

text \<open>Truthiness of a JSON value (\<^verbatim>\<open>item.input || {}\<close>).\<close>

fun jsTruthy :: "json \<Rightarrow> bool" where
  "jsTruthy JNull = False"
| "jsTruthy (JBool b) = b"
| "jsTruthy (JNum n) = (n \<noteq> 0)"
| "jsTruthy (JStr s) = (s \<noteq> [])"
| "jsTruthy (JArr _) = True"
| "jsTruthy (JObj _) = True"

definition orEmptyObject :: "json option \<Rightarrow> json" where
  "orEmptyObject v = (case v of None \<Rightarrow> JObj [] | Some j \<Rightarrow> if jsTruthy j then j else JObj [])"

section \<open>The bridge markup of the request side (mcpXmlBridge)\<close>

definition isMcpToolName :: "string option \<Rightarrow> bool" where
  "isMcpToolName name = (case name of None \<Rightarrow> False | Some n \<Rightarrow> startsWith n ''mcp__'')"

text \<open>
  \<^verbatim>\<open>safeJsonStringify\<close>: \<^verbatim>\<open>JSON.stringify\<close> is the parameter \<open>stringify\<close>; the result is cut
  at \<open>maxLen\<close> characters.
\<close>

definition safeJsonStringify :: "(json \<Rightarrow> string) \<Rightarrow> json \<Rightarrow> nat \<Rightarrow> string" where
  "safeJsonStringify stringify v maxLen =
     (let t = stringify v in if length t > maxLen then take maxLen t @ ''...'' else t)"

definition orBraces :: "string \<Rightarrow> string" where
  "orBraces s = (if s = [] then ''{}'' else s)"

definition buildMcpToolCallXml :: "(json \<Rightarrow> string) \<Rightarrow> string option \<Rightarrow> json \<Rightarrow> string" where
  "buildMcpToolCallXml stringify name input =
     (let toolName = (case name of None \<Rightarrow> [] | Some n \<Rightarrow> n);
          payload = orBraces (safeJsonStringify stringify input 20000)
      in ''<'' @ toolName @ ''>'' @ payload @ ''</'' @ toolName @ ''>'')"

definition buildMcpToolResultXml ::
  "(json \<Rightarrow> string) \<Rightarrow> string option \<Rightarrow> string option \<Rightarrow> string \<Rightarrow> string" where
  "buildMcpToolResultXml stringify toolName toolUseId resultText =
     (let payload = JObj [(''name'', JStr (case toolName of None \<Rightarrow> [] | Some n \<Rightarrow> n)),
                          (''tool_use_id'', JStr (case toolUseId of None \<Rightarrow> [] | Some i \<Rightarrow> i)),
                          (''result'', JStr resultText)]
      in ''<mcp_tool_result>'' @ orBraces (safeJsonStringify stringify payload 40000)
           @ ''</mcp_tool_result>'')"

section \<open>The continuation-token ledger\<close>

text \<open>
  The process-wide map from the id of a tool invocation to its continuation token.
  \<^verbatim>\<open>getToolThoughtSignature\<close> is the lookup of the source.
\<close>

type_synonym ledger = "string \<rightharpoonup> string"

definition getToolThoughtSignature :: "ledger \<Rightarrow> string option \<Rightarrow> string option" where
  "getToolThoughtSignature l toolUseId =
     (if \<not> truthy toolUseId then None
      else (case l (the toolUseId) of None \<Rightarrow> None | Some s \<Rightarrow> if s = [] then None else Some s))"

text \<open>
  Modelled from the spec: \<^verbatim>\<open>deleteToolThoughtSignature\<close> of the module
  \<^verbatim>\<open>ToolThoughtSignatureStore\<close>, which is not among the sources. Section 4.2 of the
  specification gives the ledger insert, lookup and delete operations, the delete being
  per id and idempotent.
\<close>

definition deleteToolThoughtSignature :: "ledger \<Rightarrow> string option \<Rightarrow> ledger" where
  "deleteToolThoughtSignature l toolUseId =
     (if \<not> truthy toolUseId then l else l((the toolUseId) := None))"

definition rememberToolThoughtSignature :: "ledger \<Rightarrow> string option \<Rightarrow> string option \<Rightarrow> ledger" where
  "rememberToolThoughtSignature l toolUseId sig =
     (if \<not> truthy toolUseId \<or> \<not> truthy sig then l else l((the toolUseId) \<mapsto> the sig))"

section \<open>The request transcoder: the message loop of transformClaudeRequestIn\<close>

text \<open>
  What \<^verbatim>\<open>extractInlineDataPartsFromClaudeToolResultContent\<close> returns: the text of a tool
  result, its content with the binary payloads replaced, and the payloads themselves, each
  a pair of a mime type and the data.
\<close>

record extracted =
  contentText :: string
  sanitizedContent :: "json option"
  inlineParts :: "(string \<times> string) list"

text \<open>
  What the loop takes from its surroundings: whether the bridge is active for the request
  (\<^verbatim>\<open>isMcpXmlEnabled() && getMcpTools(tools).length > 0\<close>), \<^verbatim>\<open>JSON.stringify\<close>, and the
  extraction of inline data from a tool result.
\<close>

record xenv =
  mcpXmlEnabled :: bool
  stringify :: "json \<Rightarrow> string"
  extractInline :: "json option \<Rightarrow> extracted"

text \<open>
  The options of \<^verbatim>\<open>transformClaudeRequestIn\<close>: \<open>forwardThoughtSignatures\<close> is false only
  when the caller passes \<^verbatim>\<open>false\<close>; \<open>signatureSegmentStartIndex\<close> is \<open>None\<close> unless the
  caller passes an integer.
\<close>

record xoptions =
  forwardThoughtSignatures :: bool
  signatureSegmentStartIndex :: "int option"

definition defaultOptions :: xoptions where
  "defaultOptions = \<lparr>forwardThoughtSignatures = True, signatureSegmentStartIndex = None\<rparr>"

text \<open>
  The variables of the loop. The first four are those of one message; the id-to-name
  table, the last task text of the user and the ledger live across the messages.
\<close>

record xstate =
  parts :: "gpart list"
  sawNonThinkingContent :: bool
  previousWasToolResult :: bool
  pendingThoughtSignature :: "string option"
  toolIdToName :: "string \<rightharpoonup> string"
  lastUserTaskTextNormalized :: "string option"
  sigLedger :: ledger

definition orEmpty :: "string option \<Rightarrow> string" where
  "orEmpty x = (case x of None \<Rightarrow> [] | Some s \<Rightarrow> s)"

definition pushPart :: "gpart \<Rightarrow> xstate \<Rightarrow> xstate" where
  "pushPart p st = st\<lparr>parts := parts st @ [p]\<rparr>"

definition inlinePart :: "string \<times> string \<Rightarrow> gpart" where
  "inlinePart md = emptyPart\<lparr>p_inlineData := Some md\<rparr>"

definition processText :: "string \<Rightarrow> bool \<Rightarrow> bool \<Rightarrow> string option \<Rightarrow> xstate \<Rightarrow> xstate" where
  "processText role fwd hasFC t st =
     (let txt = orEmpty t in
      if txt = [] \<or> txt = ''(no content)'' then st
      else if role = ''user'' \<and> previousWasToolResult st
              \<and> truthy (lastUserTaskTextNormalized st)
              \<and> Some (removeWhiteSpace txt) = lastUserTaskTextNormalized st
      then st\<lparr>previousWasToolResult := False\<rparr>
      else
        (let attach = (truthy (pendingThoughtSignature st) \<and> fwd \<and> role = ''model'' \<and> \<not> hasFC);
             part = (textPart txt)\<lparr>p_thoughtSignature :=
                       (if attach then pendingThoughtSignature st else None)\<rparr>
         in st\<lparr>parts := parts st @ [part],
                pendingThoughtSignature := (if attach then None else pendingThoughtSignature st),
                sawNonThinkingContent := True,
                previousWasToolResult := False,
                lastUserTaskTextNormalized :=
                  (if role = ''user'' then Some (removeWhiteSpace txt)
                   else lastUserTaskTextNormalized st)\<rparr>))"

definition processThinkingItem :: "bool \<Rightarrow> string option \<Rightarrow> string option \<Rightarrow> xstate \<Rightarrow> xstate" where
  "processThinkingItem fwd th sg st =
     (let thinkingText = orEmpty th; signature = orEmpty sg in
      if thinkingText = []
      then (if signature \<noteq> [] \<and> fwd then st\<lparr>pendingThoughtSignature := Some signature\<rparr> else st)
      else if sawNonThinkingContent st then st
      else
        (let st1 = (if signature \<noteq> [] \<and> fwd
                    then st\<lparr>pendingThoughtSignature := Some signature\<rparr> else st);
             st2 = (if fwd
                    then st1\<lparr>parts := parts st1 @ [(textPart thinkingText)\<lparr>p_thought := True\<rparr>]\<rparr>
                    else st1\<lparr>parts := parts st1 @ [textPart thinkingText],
                             sawNonThinkingContent := True\<rparr>)
         in st2\<lparr>previousWasToolResult := False\<rparr>))"

definition processRedactedThinking :: "string option \<Rightarrow> xstate \<Rightarrow> xstate" where
  "processRedactedThinking d st =
     (let txt = orEmpty d in
      if txt = [] then st
      else if sawNonThinkingContent st then st
      else st\<lparr>parts := parts st @ [textPart txt],
              sawNonThinkingContent := True,
              previousWasToolResult := False\<rparr>)"

definition processImage :: "string option \<Rightarrow> string option \<Rightarrow> string option \<Rightarrow> xstate \<Rightarrow> xstate" where
  "processImage srcType mediaType dat st =
     (if srcType = Some ''base64''
      then st\<lparr>parts := parts st @
                  [inlinePart (if truthy mediaType then the mediaType else ''image/png'', orEmpty dat)],
              sawNonThinkingContent := True,
              previousWasToolResult := False\<rparr>
      else st\<lparr>previousWasToolResult := False\<rparr>)"

definition recordToolName :: "string option \<Rightarrow> string option \<Rightarrow> (string \<rightharpoonup> string) \<Rightarrow> (string \<rightharpoonup> string)" where
  "recordToolName tid name tbl =
     (if truthy tid \<and> truthy name then tbl((the tid) \<mapsto> the name) else tbl)"

text \<open>A tool invocation of a bridged tool, re-encoded as bridge markup text.\<close>

definition processBridgedToolUse ::
  "xenv \<Rightarrow> bool \<Rightarrow> string option \<Rightarrow> string option \<Rightarrow> json option \<Rightarrow> string option
     \<Rightarrow> xstate \<Rightarrow> xstate" where
  "processBridgedToolUse env fwd tid name input sg st =
     (let pendingSig = (if fwd then pendingThoughtSignature st else None);
          itemSig = (if truthy sg then sg else None);
          led = (if truthy tid \<and> (truthy itemSig \<or> truthy pendingSig)
                 then deleteToolThoughtSignature (sigLedger st) tid else sigLedger st);
          part = (textPart (buildMcpToolCallXml (stringify env) name (orEmptyObject input)))
                   \<lparr>p_thoughtSignature :=
                      (if truthy itemSig \<and> fwd then itemSig
                       else if truthy pendingSig \<and> fwd then pendingSig else None)\<rparr>
      in st\<lparr>parts := parts st @ [part],
             toolIdToName := recordToolName tid name (toolIdToName st),
             sigLedger := led,
             pendingThoughtSignature :=
               (if truthy pendingSig then None else pendingThoughtSignature st),
             sawNonThinkingContent := True,
             previousWasToolResult := False\<rparr>)"

text \<open>A native tool invocation: a \<^verbatim>\<open>functionCall\<close> part.\<close>

definition processNativeToolUse ::
  "bool \<Rightarrow> string option \<Rightarrow> string option \<Rightarrow> json option \<Rightarrow> string option
     \<Rightarrow> xstate \<Rightarrow> xstate" where
  "processNativeToolUse fwd tid name input sg st =
     (let led1 = (if truthy sg then deleteToolThoughtSignature (sigLedger st) tid
                  else sigLedger st);
          pendingSig = (if fwd then pendingThoughtSignature st else None);
          sig = (if truthy sg then sg
                 else if truthy pendingSig then pendingSig
                 else getToolThoughtSignature led1 tid);
          led2 = (if \<not> truthy sg \<and> truthy pendingSig \<and> truthy tid
                  then deleteToolThoughtSignature led1 tid else led1);
          fcPart = emptyPart
                   \<lparr>p_functionCall := Some \<lparr>fc_name = name, fc_args = Some (orEmptyObject input),
                                           fc_id = tid\<rparr>,
                    p_thoughtSignature := (if truthy sig \<and> fwd then sig else None)\<rparr>
      in st\<lparr>parts := parts st @ [fcPart],
             toolIdToName := recordToolName tid name (toolIdToName st),
             sigLedger := led2,
             pendingThoughtSignature :=
               (if truthy pendingSig then None else pendingThoughtSignature st),
             sawNonThinkingContent := True,
             previousWasToolResult := False\<rparr>)"

definition processToolResult :: "xenv \<Rightarrow> string option \<Rightarrow> json option \<Rightarrow> bool \<Rightarrow> xstate \<Rightarrow> xstate" where
  "processToolResult env tid rawContent isError st =
     (let funcName = (case tid of None \<Rightarrow> None
                      | Some t \<Rightarrow> (case toolIdToName st t of None \<Rightarrow> Some t | Some n \<Rightarrow> Some n));
          ex = extractInline env rawContent;
          first =
            (if mcpXmlEnabled env \<and> isMcpToolName funcName
             then textPart (buildMcpToolResultXml (stringify env) funcName tid (contentText ex))
             else if mcpXmlEnabled env \<and> funcName = tid
             then textPart (buildMcpToolResultXml (stringify env) (Some []) tid (contentText ex))
             else emptyPart\<lparr>p_functionResponse :=
                    Some \<lparr>fr_name = funcName, fr_result = contentText ex, fr_is_error = isError,
                          fr_content = sanitizedContent ex, fr_id = tid\<rparr>\<rparr>)
      in st\<lparr>parts := parts st @ [first] @ map inlinePart (inlineParts ex),
             sawNonThinkingContent := True,
             previousWasToolResult := True\<rparr>)"

text \<open>One iteration of the loop over the content items of a message.\<close>

fun processItem :: "xenv \<Rightarrow> string \<Rightarrow> bool \<Rightarrow> bool \<Rightarrow> xstate \<Rightarrow> item \<Rightarrow> xstate" where
  "processItem env role fwd hasFC st (TextItem t) = processText role fwd hasFC t st"
| "processItem env role fwd hasFC st (ThinkingItem th sg) = processThinkingItem fwd th sg st"
| "processItem env role fwd hasFC st (RedactedThinkingItem d) = processRedactedThinking d st"
| "processItem env role fwd hasFC st (ImageItem ty mt d) = processImage ty mt d st"
| "processItem env role fwd hasFC st (ToolUseItem tid name input sg) =
     (if mcpXmlEnabled env \<and> isMcpToolName name
      then processBridgedToolUse env fwd tid name input sg st
      else processNativeToolUse fwd tid name input sg st)"
| "processItem env role fwd hasFC st (ToolResultItem tid c e) = processToolResult env tid c e st"
| "processItem env role fwd hasFC st OtherItem = st"

definition processItems :: "xenv \<Rightarrow> string \<Rightarrow> bool \<Rightarrow> bool \<Rightarrow> xstate \<Rightarrow> item list \<Rightarrow> xstate" where
  "processItems env role fwd hasFC st items = foldl (processItem env role fwd hasFC) st items"

text \<open>
  The fallback after the items: a token still pending goes to the last part that can carry
  one. The scan runs over the parts from the last to the first; \<open>None\<close> when no part is
  eligible.
\<close>

fun backfillFrom :: "string \<Rightarrow> gpart list \<Rightarrow> gpart list option" where
  "backfillFrom sig [] = None"
| "backfillFrom sig (p # ps) =
     (if truthy (p_thoughtSignature p) then map_option (Cons p) (backfillFrom sig ps)
      else if p_functionCall p \<noteq> None then Some (p\<lparr>p_thoughtSignature := Some sig\<rparr> # ps)
      else if (case p_text p of None \<Rightarrow> False | Some t \<Rightarrow> \<not> p_thought p \<and> t \<noteq> [])
      then Some (p\<lparr>p_thoughtSignature := Some sig\<rparr> # ps)
      else map_option (Cons p) (backfillFrom sig ps))"

definition backfill :: "string \<Rightarrow> bool \<Rightarrow> xstate \<Rightarrow> xstate" where
  "backfill role fwd st =
     (if truthy (pendingThoughtSignature st) \<and> fwd \<and> role = ''model''
      then (case backfillFrom (the (pendingThoughtSignature st)) (rev (parts st)) of
              None \<Rightarrow> st
            | Some r \<Rightarrow> st\<lparr>parts := rev r, pendingThoughtSignature := None\<rparr>)
      else st)"

text \<open>
  The reordering of a user message: the function responses, each with the inline data
  that directly follows it, come first. The flag says that the scan stands directly after
  a function response and the inline data it has taken so far.
\<close>

fun reorderGo :: "bool \<Rightarrow> gpart list \<Rightarrow> gpart list \<times> gpart list" where
  "reorderGo attaching [] = ([], [])"
| "reorderGo attaching (p # ps) =
     (if p_functionResponse p \<noteq> None
      then (case reorderGo True ps of (r, d) \<Rightarrow> (p # r, d))
      else if attaching \<and> p_inlineData p \<noteq> None
      then (case reorderGo True ps of (r, d) \<Rightarrow> (p # r, d))
      else (case reorderGo False ps of (r, d) \<Rightarrow> (r, p # d)))"

definition reorderUserParts :: "string \<Rightarrow> gpart list \<Rightarrow> gpart list" where
  "reorderUserParts role ps =
     (if role = ''user'' \<and> ps \<noteq> [] \<and> list_ex (\<lambda>p. p_functionResponse p \<noteq> None) ps
      then (case reorderGo False ps of (r, d) \<Rightarrow> r @ d)
      else ps)"

definition isFunctionCallToolUse :: "xenv \<Rightarrow> item \<Rightarrow> bool" where
  "isFunctionCallToolUse env it =
     (case it of ToolUseItem tid name input sg \<Rightarrow> \<not> (mcpXmlEnabled env \<and> isMcpToolName name)
      | _ \<Rightarrow> False)"

definition shouldForwardThoughtSignatures :: "xoptions \<Rightarrow> nat \<Rightarrow> bool" where
  "shouldForwardThoughtSignatures opts msgIndex =
     (forwardThoughtSignatures opts \<and>
      (case signatureSegmentStartIndex opts of None \<Rightarrow> True | Some k \<Rightarrow> int msgIndex \<ge> k))"

definition transformRole :: "string \<Rightarrow> string" where
  "transformRole r = (if r = ''assistant'' then ''model'' else r)"

text \<open>
  The body of the loop over the messages: the parts of message \<open>msgIndex\<close>, and the state
  handed to the next message.
\<close>

definition startMessage :: "xstate \<Rightarrow> xstate" where
  "startMessage st = st\<lparr>parts := [], sawNonThinkingContent := False,
     previousWasToolResult := False, pendingThoughtSignature := None\<rparr>"

definition transformMessage :: "xenv \<Rightarrow> xoptions \<Rightarrow> nat \<Rightarrow> message \<Rightarrow> xstate \<Rightarrow> xstate" where
  "transformMessage env opts msgIndex msg st0 =
     (let fwd = shouldForwardThoughtSignatures opts msgIndex;
          role = transformRole (msg_role msg);
          st = startMessage st0;
          st1 = (case msg_content msg of
                   ContentItems items \<Rightarrow>
                     processItems env role fwd
                       (role = ''model'' \<and> list_ex (isFunctionCallToolUse env) items) st items
                 | ContentString t \<Rightarrow>
                     (if t \<noteq> []
                      then st\<lparr>parts := [textPart t],
                              lastUserTaskTextNormalized :=
                                (if role = ''user'' then Some (removeWhiteSpace t)
                                 else lastUserTaskTextNormalized st)\<rparr>
                      else st)
                 | ContentOther \<Rightarrow> st);
          st2 = backfill role fwd st1
      in st2\<lparr>parts := reorderUserParts role (parts st2)\<rparr>)"


definition initialState :: "ledger \<Rightarrow> xstate" where
  "initialState l = \<lparr>parts = [], sawNonThinkingContent = False, previousWasToolResult = False,
     pendingThoughtSignature = None, toolIdToName = Map.empty,
     lastUserTaskTextNormalized = None, sigLedger = l\<rparr>"


text \<open>The content items that are not reasoning items: text, image, tool use, tool result.\<close>

definition nonReasoning :: "item \<Rightarrow> bool" where
  "nonReasoning it =
     (case it of TextItem _ \<Rightarrow> True | ImageItem _ _ _ \<Rightarrow> True | ToolUseItem _ _ _ _ \<Rightarrow> True
      | ToolResultItem _ _ _ \<Rightarrow> True | _ \<Rightarrow> False)"

text \<open>Sample surroundings for concrete runs: the bridge off, trivial stand-ins for the helpers.\<close>

definition sampleEnv :: xenv where
  "sampleEnv = \<lparr>mcpXmlEnabled = False, stringify = (\<lambda>_. ''{}''),
     extractInline = (\<lambda>_. \<lparr>contentText = [], sanitizedContent = None, inlineParts = []\<rparr>)\<rparr>"

section \<open>Requests, models and families\<close>












section \<open>The model-switch retry orchestrator: session state and fold-back\<close>



























section \<open>The schema sanitizer\<close>

text \<open>
  What the sanitizer takes from the platform: \<^verbatim>\<open>String.prototype.toUpperCase\<close>, and the text
  that a template literal prints for a number.
\<close>

record platform =
  toUpperCase :: "string \<Rightarrow> string"
  numberToString :: "int \<Rightarrow> string"

text \<open>
  Assignment \<^verbatim>\<open>obj.key = value\<close> of a key that is written out in the source: an entry
  that exists keeps its place, a new one goes to the end.
\<close>

fun setProp :: "(string \<times> json) list \<Rightarrow> string \<Rightarrow> json \<Rightarrow> (string \<times> json) list" where
  "setProp [] k v = [(k, v)]"
| "setProp ((k', v') # kvs) k v = (if k' = k then (k, v) # kvs else (k', v') # setProp kvs k v)"

text \<open>
  Assignment \<^verbatim>\<open>obj[key] = value\<close> of a key taken from the schema, to an object made by
  \<^verbatim>\<open>{}\<close>: the key \<^verbatim>\<open>__proto__\<close> reaches the setter of \<^verbatim>\<open>Object.prototype\<close>, which adds no
  entry.
\<close>

definition assignProp :: "(string \<times> json) list \<Rightarrow> string \<Rightarrow> json \<Rightarrow> (string \<times> json) list" where
  "assignProp kvs k v = (if k = ''__proto__'' then kvs else setProp kvs k v)"

text \<open>
  The names that every object made by \<^verbatim>\<open>{}\<close> inherits from \<^verbatim>\<open>Object.prototype\<close>, for which
  \<^verbatim>\<open>key in obj\<close> is true.
\<close>

definition objectPrototypeKeys :: "string list" where
  "objectPrototypeKeys = [''constructor'', ''__defineGetter__'', ''__defineSetter__'',
     ''hasOwnProperty'', ''__lookupGetter__'', ''__lookupSetter__'', ''isPrototypeOf'',
     ''propertyIsEnumerable'', ''toString'', ''valueOf'', ''__proto__'', ''toLocaleString'']"

fun joinWith :: "string \<Rightarrow> string list \<Rightarrow> string" where
  "joinWith sep [] = []"
| "joinWith sep [x] = x"
| "joinWith sep (x # y # ys) = x @ sep @ joinWith sep (y # ys)"

text \<open>
  The string a template literal makes of a JSON value: an array joins its elements with
  commas, \<^verbatim>\<open>null\<close> elements counting as empty; an object is \<^verbatim>\<open>[object Object]\<close>.
\<close>

fun jsString :: "platform \<Rightarrow> json \<Rightarrow> string" where
  "jsString pf JNull = ''null''"
| "jsString pf (JBool b) = (if b then ''true'' else ''false'')"
| "jsString pf (JNum n) = numberToString pf n"
| "jsString pf (JStr s) = s"
| "jsString pf (JArr xs) = joinWith '','' (map (\<lambda>x. if x = JNull then [] else jsString pf x) xs)"
| "jsString pf (JObj kvs) = ''[object Object]''"

definition upperTypeValue :: "platform \<Rightarrow> json \<Rightarrow> json" where
  "upperTypeValue pf v =
     (case v of
        JStr s \<Rightarrow> JStr (toUpperCase pf s)
      | JArr xs \<Rightarrow> JArr (map (\<lambda>i. case i of JStr s \<Rightarrow> JStr (toUpperCase pf s) | _ \<Rightarrow> i) xs)
      | _ \<Rightarrow> v)"

text \<open>
  \<^verbatim>\<open>uppercaseSchemaTypes\<close> assigns the entries of the schema, in their order, to a new
  object; the keys of an object being distinct, only the entry \<^verbatim>\<open>__proto__\<close> is lost.
\<close>

fun uppercaseSchemaTypes :: "platform \<Rightarrow> json \<Rightarrow> json" where
  "uppercaseSchemaTypes pf (JArr xs) = JArr (map (uppercaseSchemaTypes pf) xs)"
| "uppercaseSchemaTypes pf (JObj kvs) =
     JObj (map (\<lambda>(k, v). if k = ''type'' then (k, upperTypeValue pf v)
                          else (k, uppercaseSchemaTypes pf v))
             (filter (\<lambda>(k, v). k \<noteq> ''__proto__'') kvs))"
| "uppercaseSchemaTypes pf v = v"


definition validationFields :: "string list" where
  "validationFields = [''minLength'', ''maxLength'', ''minimum'', ''maximum'',
     ''exclusiveMinimum'', ''exclusiveMaximum'', ''minItems'', ''maxItems'']"

definition removeKeys :: "string list" where
  "removeKeys = [''$schema'', ''additionalProperties'', ''default'', ''uniqueItems'',
     ''propertyNames'', ''patternProperties'', ''unevaluatedProperties'']"

definition combinators :: "string list" where
  "combinators = [''anyOf'', ''oneOf'', ''allOf'']"

text \<open>The annotations \<^verbatim>\<open>label: value\<close> of the validation keywords the schema has.\<close>

definition validationsOf :: "platform \<Rightarrow> (string \<times> json) list \<Rightarrow> string list" where
  "validationsOf pf kvs =
     List.map_filter (\<lambda>field. case map_of kvs field of None \<Rightarrow> None
                               | Some v \<Rightarrow> Some (field @ '': '' @ jsString pf v)) validationFields"

text \<open>
  \<^verbatim>\<open>key in validationFields\<close>: \<^verbatim>\<open>validationFields\<close> is an object literal, so the test is true
  of its eight keys and of the names it inherits.
\<close>

definition inValidationFields :: "string \<Rightarrow> bool" where
  "inValidationFields key = (key \<in> set validationFields \<or> key \<in> set objectPrototypeKeys)"

definition inferType :: "json \<Rightarrow> string" where
  "inferType val =
     (case val of JNull \<Rightarrow> ''null'' | JArr _ \<Rightarrow> ''array'' | JBool _ \<Rightarrow> ''boolean''
      | JNum _ \<Rightarrow> ''number'' | JStr _ \<Rightarrow> ''string'' | JObj _ \<Rightarrow> ''object'')"

definition isSimpleEnum :: "json \<Rightarrow> bool" where
  "isSimpleEnum s =
     (case s of
        JObj kvs \<Rightarrow> (case map_of kvs ''enum'' of Some (JArr _) \<Rightarrow> True | _ \<Rightarrow> False)
                    \<and> list_all (\<lambda>(k, v). k = ''enum'' \<or> k = ''type'') kvs
      | _ \<Rightarrow> False)"

text \<open>
  \<^verbatim>\<open>Array.from(new Set(xs))\<close>: a primitive value is kept at its first occurrence; arrays
  and objects are compared by identity, and no two nodes of a schema tree are the same
  object, so all of them stay.
\<close>

definition isPrimitive :: "json \<Rightarrow> bool" where
  "isPrimitive v = (case v of JArr _ \<Rightarrow> False | JObj _ \<Rightarrow> False | _ \<Rightarrow> True)"

fun uniqueValues :: "json list \<Rightarrow> json list \<Rightarrow> json list" where
  "uniqueValues seen [] = []"
| "uniqueValues seen (x # xs) =
     (if isPrimitive x \<and> x \<in> set seen then uniqueValues seen xs
      else x # uniqueValues (x # seen) xs)"

definition enumOf :: "json \<Rightarrow> json list" where
  "enumOf s = (case jget s ''enum'' of Some (JArr xs) \<Rightarrow> xs | _ \<Rightarrow> [])"

definition typesOf :: "json list \<Rightarrow> json list" where
  "typesOf cleanedList =
     uniqueValues [] (filter jsTruthy (List.map_filter (\<lambda>s. jget s ''type'') cleanedList))"

text \<open>
  An entry of the schema with what the recursion made of it: the cleaned value, and, for a
  value that is an object, its entries cleaned one by one (for \<^verbatim>\<open>properties\<close>). \<open>None\<close> is a
  TypeError raised below.
\<close>

type_synonym cleaned_entry = "string \<times> json \<times> json option \<times> json option list"

text \<open>
  The state of the loop over the entries: the object \<^verbatim>\<open>cleaned\<close> and \<^verbatim>\<open>constValue\<close>.
\<close>

definition normalizeTypeUnion :: "json list \<Rightarrow> json" where
  "normalizeTypeUnion xs =
     (let filtered = filter (\<lambda>v. v \<noteq> JStr ''null'') xs in
      if filtered \<noteq> [] \<and> jsTruthy (hd filtered) then hd filtered
      else if xs \<noteq> [] \<and> jsTruthy (hd xs) then hd xs
      else JStr ''string'')"

definition isObjectValue :: "json \<Rightarrow> bool" where
  "isObjectValue v = (case v of JArr _ \<Rightarrow> True | JObj _ \<Rightarrow> True | _ \<Rightarrow> False)"

definition cleanEntry ::
  "platform \<Rightarrow> string list \<Rightarrow> ((string \<times> json) list \<times> json option) \<Rightarrow> cleaned_entry
     \<Rightarrow> ((string \<times> json) list \<times> json option) option" where
  "cleanEntry pf validations st e =
     (case (st, e) of ((cleaned, constValue), (key, val, cleanedValue, cleanedProps)) \<Rightarrow>
      if key \<in> set combinators then
        (case val of
           JArr _ \<Rightarrow>
             (case cleanedValue of
                Some (JArr cleanedList) \<Rightarrow>
                  (if (key = ''anyOf'' \<or> key = ''oneOf'') \<and> cleanedList \<noteq> []
                      \<and> list_all isSimpleEnum cleanedList \<and> length (typesOf cleanedList) \<le> 1
                   then (let c1 = setProp cleaned ''enum''
                                    (JArr (uniqueValues [] (concat (map enumOf cleanedList))));
                             c2 = (if length (typesOf cleanedList) = 1
                                   then setProp c1 ''type'' (hd (typesOf cleanedList)) else c1)
                         in Some (c2, constValue))
                   else Some (assignProp cleaned key (JArr cleanedList), constValue))
              | _ \<Rightarrow> None)
         | _ \<Rightarrow> Some (assignProp cleaned key val, constValue))
      else if key = ''const'' then Some (cleaned, Some val)
      else if key \<in> set removeKeys \<or> inValidationFields key then Some (cleaned, constValue)
      else if key = ''properties'' \<and> (case val of JObj _ \<Rightarrow> True | _ \<Rightarrow> False) then
        (case (val, those cleanedProps) of
           (JObj pv, Some ps) \<Rightarrow>
             Some (setProp cleaned ''properties''
                     (JObj (filter (\<lambda>(n, c). n \<noteq> ''__proto__'') (zip (map fst pv) ps))),
                   constValue)
         | _ \<Rightarrow> None)
      else if key = ''type'' \<and> (case val of JArr _ \<Rightarrow> True | _ \<Rightarrow> False) then
        (case val of
           JArr xs \<Rightarrow>
             (let c1 = setProp cleaned ''type'' (normalizeTypeUnion xs);
                  c2 = (if JStr ''null'' \<in> set xs then setProp c1 ''nullable'' (JBool True) else c1)
              in Some (c2, constValue))
         | _ \<Rightarrow> None)
      else if key = ''description'' \<and> validations \<noteq> [] then
        Some (assignProp cleaned key
                (JStr (jsString pf val @ '' ('' @ joinWith '', '' validations @ '')'')), constValue)
      else if isObjectValue val then
        (case cleanedValue of
           Some c \<Rightarrow> Some (assignProp cleaned key c, constValue)
         | None \<Rightarrow> None)
      else Some (assignProp cleaned key val, constValue))"

fun cleanEntries ::
  "platform \<Rightarrow> string list \<Rightarrow> ((string \<times> json) list \<times> json option) \<Rightarrow> cleaned_entry list
     \<Rightarrow> ((string \<times> json) list \<times> json option) option" where
  "cleanEntries pf validations st [] = Some st"
| "cleanEntries pf validations st (e # es) =
     (case cleanEntry pf validations st e of
        None \<Rightarrow> None
      | Some st' \<Rightarrow> cleanEntries pf validations st' es)"

text \<open>
  After the loop: \<^verbatim>\<open>const\<close> joins \<^verbatim>\<open>enum\<close> and gives a type when there is none. A truthy
  \<^verbatim>\<open>enum\<close> that is not an array has no \<^verbatim>\<open>push\<close>: a TypeError.
\<close>

definition propTruthy :: "(string \<times> json) list \<Rightarrow> string \<Rightarrow> bool" where
  "propTruthy kvs k = (case map_of kvs k of None \<Rightarrow> False | Some v \<Rightarrow> jsTruthy v)"

definition applyConst :: "(string \<times> json) list \<Rightarrow> json option \<Rightarrow> (string \<times> json) list option" where
  "applyConst cleaned constValue =
     (case constValue of
        None \<Rightarrow> Some cleaned
      | Some c \<Rightarrow>
          (let c1 = (if propTruthy cleaned ''enum'' then cleaned else setProp cleaned ''enum'' (JArr []))
           in (case map_of c1 ''enum'' of
                 Some (JArr xs) \<Rightarrow>
                   (let c2 = setProp c1 ''enum'' (JArr (xs @ [c]))
                    in Some (if propTruthy c2 ''type'' then c2
                             else setProp c2 ''type'' (JStr (inferType c))))
               | _ \<Rightarrow> None)))"

text \<open>
  \<^verbatim>\<open>if (cleaned.enum && cleaned.enum.length > 1) cleaned.enum = Array.from(new Set(cleaned.enum))\<close>.
  An array loses its repeated primitives; a string of a \<^verbatim>\<open>length\<close> above 1 becomes the
  array of its distinct characters; an object with a numeric \<^verbatim>\<open>length\<close> above 1 is not
  iterable, a TypeError. The comparison of a \<^verbatim>\<open>length\<close> that is a string or an array with 1
  rests on JavaScript's conversion of text to a number, which is not modelled: the model
  gives no result there.
\<close>

definition dedupeEnum :: "(string \<times> json) list \<Rightarrow> (string \<times> json) list option" where
  "dedupeEnum cleaned =
     (case map_of cleaned ''enum'' of
        Some (JArr xs) \<Rightarrow>
          Some (if length xs > 1 then setProp cleaned ''enum'' (JArr (uniqueValues [] xs))
                else cleaned)
      | Some (JStr s) \<Rightarrow>
          Some (if utf16Length s > 1
                then setProp cleaned ''enum'' (JArr (uniqueValues [] (map JStr (codePoints s))))
                else cleaned)
      | Some (JObj kvs) \<Rightarrow>
          (case map_of kvs ''length'' of
             Some (JNum n) \<Rightarrow> if n > 1 then None else Some cleaned
           | Some (JStr _) \<Rightarrow> None
           | Some (JArr _) \<Rightarrow> None
           | _ \<Rightarrow> Some cleaned)
      | _ \<Rightarrow> Some cleaned)"

definition addValidationDescription :: "string list \<Rightarrow> (string \<times> json) list \<Rightarrow> (string \<times> json) list" where
  "addValidationDescription validations cleaned =
     (if validations \<noteq> [] \<and> \<not> propTruthy cleaned ''description''
      then setProp cleaned ''description'' (JStr (''Validation: '' @ joinWith '', '' validations))
      else cleaned)"

definition finishSchema ::
  "platform \<Rightarrow> bool \<Rightarrow> string list \<Rightarrow> ((string \<times> json) list \<times> json option) \<Rightarrow> json option" where
  "finishSchema pf uppercaseTypes validations st =
     (case applyConst (fst st) (snd st) of
        None \<Rightarrow> None
      | Some c1 \<Rightarrow>
          (case dedupeEnum c1 of
             None \<Rightarrow> None
           | Some c2 \<Rightarrow>
               (let c3 = JObj (addValidationDescription validations c2)
                in Some (if uppercaseTypes then uppercaseSchemaTypes pf c3 else c3))))"

text \<open>
  \<^verbatim>\<open>cleanJsonSchema(schema, options)\<close>, the version that takes options; \<open>uppercaseTypes\<close> is
  \<^verbatim>\<open>options.uppercaseTypes !== false\<close>.
\<close>

fun cleanJsonSchema :: "platform \<Rightarrow> bool \<Rightarrow> json \<Rightarrow> json option" where
  "cleanJsonSchema pf uppercaseTypes (JArr xs) =
     map_option JArr (those (map (cleanJsonSchema pf uppercaseTypes) xs))"
| "cleanJsonSchema pf uppercaseTypes (JObj kvs) =
     (case cleanEntries pf (validationsOf pf kvs) ([], None)
             (map (\<lambda>(k, v). (k, v, cleanJsonSchema pf uppercaseTypes v,
                               (case v of JObj pv \<Rightarrow> map (\<lambda>(n, ps). cleanJsonSchema pf uppercaseTypes ps) pv
                                | _ \<Rightarrow> []))) kvs) of
        None \<Rightarrow> None
      | Some st \<Rightarrow> finishSchema pf uppercaseTypes (validationsOf pf kvs) st)"
| "cleanJsonSchema pf uppercaseTypes v = Some v"



text \<open>
  \<^verbatim>\<open>cleanJsonSchema(schema)\<close> of \<^verbatim>\<open>src/transform/claude/ClaudeRequestUtils.js\<close>, the module
  that ClaudeRequestIn.js imports: it takes no options, knows no combinators, replaces
  \<^verbatim>\<open>enum\<close> by the constant, and always upper-cases.
\<close>

definition cleanEntryUtils ::
  "platform \<Rightarrow> string list \<Rightarrow> ((string \<times> json) list \<times> json option)
     \<Rightarrow> string \<times> json \<times> json \<times> json list \<Rightarrow> ((string \<times> json) list \<times> json option)" where
  "cleanEntryUtils pf validations st e =
     (case (st, e) of ((cleaned, constValue), (key, val, cleanedValue, cleanedProps)) \<Rightarrow>
      if key = ''const'' then (cleaned, Some val)
      else if key \<in> set removeKeys \<or> inValidationFields key then (cleaned, constValue)
      else if key = ''properties'' \<and> (case val of JObj _ \<Rightarrow> True | _ \<Rightarrow> False) then
        (case val of
           JObj pv \<Rightarrow>
             (setProp cleaned ''properties''
                (JObj (filter (\<lambda>(n, c). n \<noteq> ''__proto__'') (zip (map fst pv) cleanedProps))),
              constValue)
         | _ \<Rightarrow> (cleaned, constValue))
      else if key = ''type'' \<and> (case val of JArr _ \<Rightarrow> True | _ \<Rightarrow> False) then
        (case val of
           JArr xs \<Rightarrow> (setProp cleaned ''type'' (normalizeTypeUnion xs), constValue)
         | _ \<Rightarrow> (cleaned, constValue))
      else if key = ''description'' \<and> validations \<noteq> [] then
        (assignProp cleaned key
           (JStr (jsString pf val @ '' ('' @ joinWith '', '' validations @ '')'')), constValue)
      else if isObjectValue val then (assignProp cleaned key cleanedValue, constValue)
      else (assignProp cleaned key val, constValue))"

definition finishSchemaUtils ::
  "platform \<Rightarrow> string list \<Rightarrow> ((string \<times> json) list \<times> json option) \<Rightarrow> json" where
  "finishSchemaUtils pf validations st =
     (let c1 = (case snd st of None \<Rightarrow> fst st | Some c \<Rightarrow> setProp (fst st) ''enum'' (JArr [c]))
      in uppercaseSchemaTypes pf (JObj (addValidationDescription validations c1)))"

fun cleanJsonSchemaUtils :: "platform \<Rightarrow> json \<Rightarrow> json" where
  "cleanJsonSchemaUtils pf (JArr xs) = JArr (map (cleanJsonSchemaUtils pf) xs)"
| "cleanJsonSchemaUtils pf (JObj kvs) =
     finishSchemaUtils pf (validationsOf pf kvs)
       (foldl (cleanEntryUtils pf (validationsOf pf kvs)) ([], None)
          (map (\<lambda>(k, v). (k, v, cleanJsonSchemaUtils pf v,
                            (case v of JObj pv \<Rightarrow> map (\<lambda>(n, ps). cleanJsonSchemaUtils pf ps) pv
                             | _ \<Rightarrow> []))) kvs))"
| "cleanJsonSchemaUtils pf v = v"

text \<open>The schema \<^verbatim>\<open>{"type": ["string", "null"]}\<close>.\<close>

definition nullableString :: json where
  "nullableString = JObj [(''type'', JArr [JStr ''string'', JStr ''null''])]"

text \<open>
  Stand-ins for the platform in concrete runs: letters \<^verbatim>\<open>a\<close> to \<^verbatim>\<open>z\<close> in upper case, which
  is \<^verbatim>\<open>toUpperCase\<close> on ASCII text, and the decimal digits of an integer, which is what a
  template literal prints for an integer below \<^verbatim>\<open>1e21\<close> in size that a double holds.
\<close>

definition asciiUpperChar :: "char \<Rightarrow> char" where
  "asciiUpperChar c = (if CHR ''a'' \<le> c \<and> c \<le> CHR ''z'' then char_of (of_char c - (32::nat)) else c)"

definition digitChar :: "nat \<Rightarrow> char" where
  "digitChar d = char_of (48 + d)"

function showNat :: "nat \<Rightarrow> string" where
  "showNat n = (if n < 10 then [digitChar n] else showNat (n div 10) @ [digitChar (n mod 10)])"
  by pat_completeness auto
termination
  by (relation "measure id") auto

declare showNat.simps [simp del]

definition showInt :: "int \<Rightarrow> string" where
  "showInt i = (if i < 0 then ''-'' @ showNat (nat (- i)) else showNat (nat i))"

definition samplePlatform :: platform where
  "samplePlatform = \<lparr>toUpperCase = map asciiUpperChar, numberToString = showInt\<rparr>"

text \<open>
  A schema that the sanitizer leaves alone. At every object: none of the keywords it
  removes, lifts or rewrites, no key that \<^verbatim>\<open>key in validationFields\<close> is true of, a type
  that is not an array, no \<^verbatim>\<open>anyOf\<close> or \<^verbatim>\<open>oneOf\<close> that it would flatten, an \<^verbatim>\<open>enum\<close> without
  repeated values, type tokens that upper-casing leaves as they are when it is applied, and
  no property named \<^verbatim>\<open>__proto__\<close>.
\<close>

definition flattens :: "string \<Rightarrow> json \<Rightarrow> bool" where
  "flattens k v =
     ((k = ''anyOf'' \<or> k = ''oneOf'') \<and>
      (case v of JArr xs \<Rightarrow> xs \<noteq> [] \<and> list_all isSimpleEnum xs \<and> length (typesOf xs) \<le> 1
       | _ \<Rightarrow> False))"

definition keywordFree :: "(string \<times> json) list \<Rightarrow> bool" where
  "keywordFree kvs =
     list_all (\<lambda>(k, v). k \<noteq> ''const'' \<and> k \<notin> set removeKeys \<and> k \<notin> set validationFields) kvs"

fun sanitized :: "platform \<Rightarrow> bool \<Rightarrow> json \<Rightarrow> bool" where
  "sanitized pf up (JArr xs) = list_all (sanitized pf up) xs"
| "sanitized pf up (JObj kvs) =
     (distinct (map fst kvs) \<and> keywordFree kvs
      \<and> list_all (\<lambda>(k, v). k \<notin> set objectPrototypeKeys) kvs
      \<and> (case map_of kvs ''type'' of Some (JArr _) \<Rightarrow> False | _ \<Rightarrow> True)
      \<and> list_all (\<lambda>(k, v). \<not> flattens k v) kvs
      \<and> dedupeEnum kvs = Some kvs
      \<and> (if up then uppercaseSchemaTypes pf (JObj kvs) = JObj kvs else True)
      \<and> list_all (\<lambda>(k, v). case v of
                      JObj pv \<Rightarrow> if k = ''properties''
                                 then list_all (\<lambda>(n, ps). n \<noteq> ''__proto__'' \<and> sanitized pf up ps) pv
                                 else sanitized pf up v
                    | _ \<Rightarrow> sanitized pf up v) kvs)"
| "sanitized pf up v = True"

definition entryOf :: "platform \<Rightarrow> bool \<Rightarrow> string \<times> json \<Rightarrow> cleaned_entry" where
  "entryOf pf up kv = (case kv of (k, v) \<Rightarrow>
     (k, v, cleanJsonSchema pf up v,
      (case v of JObj pv \<Rightarrow> map (\<lambda>(n, ps). cleanJsonSchema pf up ps) pv | _ \<Rightarrow> [])))"

definition entryFixed :: "platform \<Rightarrow> bool \<Rightarrow> string \<times> json \<Rightarrow> bool" where
  "entryFixed pf up kv = (case kv of (k, v) \<Rightarrow>
     k \<noteq> ''const'' \<and> k \<notin> set removeKeys \<and> \<not> inValidationFields k \<and> \<not> flattens k v
     \<and> \<not> (k = ''type'' \<and> (case v of JArr _ \<Rightarrow> True | _ \<Rightarrow> False))
     \<and> (\<not> (k = ''properties'' \<and> (case v of JObj _ \<Rightarrow> True | _ \<Rightarrow> False))
          \<longrightarrow> isObjectValue v \<longrightarrow> cleanJsonSchema pf up v = Some v)
     \<and> (\<forall>pv. k = ''properties'' \<longrightarrow> v = JObj pv
          \<longrightarrow> those (map (\<lambda>(n, ps). cleanJsonSchema pf up ps) pv) = Some (map snd pv)
              \<and> list_all (\<lambda>(n, ps). n \<noteq> ''__proto__'') pv))"

definition entryOfUtils :: "platform \<Rightarrow> string \<times> json \<Rightarrow> string \<times> json \<times> json \<times> json list" where
  "entryOfUtils pf kv = (case kv of (k, v) \<Rightarrow>
     (k, v, cleanJsonSchemaUtils pf v,
      (case v of JObj pv \<Rightarrow> map (\<lambda>(n, ps). cleanJsonSchemaUtils pf ps) pv | _ \<Rightarrow> [])))"

definition entryFixedUtils :: "platform \<Rightarrow> string \<times> json \<Rightarrow> bool" where
  "entryFixedUtils pf kv = (case kv of (k, v) \<Rightarrow>
     k \<noteq> ''const'' \<and> k \<notin> set removeKeys \<and> \<not> inValidationFields k
     \<and> \<not> (k = ''type'' \<and> (case v of JArr _ \<Rightarrow> True | _ \<Rightarrow> False))
     \<and> (\<not> (k = ''properties'' \<and> (case v of JObj _ \<Rightarrow> True | _ \<Rightarrow> False))
          \<longrightarrow> isObjectValue v \<longrightarrow> cleanJsonSchemaUtils pf v = v)
     \<and> (\<forall>pv. k = ''properties'' \<longrightarrow> v = JObj pv
          \<longrightarrow> map (\<lambda>(n, ps). cleanJsonSchemaUtils pf ps) pv = map snd pv
              \<and> list_all (\<lambda>(n, ps). n \<noteq> ''__proto__'') pv))"

text \<open>
  The hypothesis of the claim as it is worded: no \<^verbatim>\<open>const\<close>, none of the removed or lifted
  keywords, and type tokens that upper-casing leaves alone.
\<close>

fun statedAsSanitized :: "platform \<Rightarrow> json \<Rightarrow> bool" where
  "statedAsSanitized pf (JArr xs) = list_all (statedAsSanitized pf) xs"
| "statedAsSanitized pf (JObj kvs) =
     (keywordFree kvs \<and> uppercaseSchemaTypes pf (JObj kvs) = JObj kvs
      \<and> list_all (\<lambda>(k, v). statedAsSanitized pf v) kvs)"
| "statedAsSanitized pf v = True"

text \<open>
  The schema \<^verbatim>\<open>{"type": ["STRING"]}\<close>, a schema with a property named \<^verbatim>\<open>constructor\<close> beside
  a keyword of that name, and a schema that the sanitizer leaves alone.
\<close>

definition unionSchema :: json where
  "unionSchema = JObj [(''type'', JArr [JStr ''STRING''])]"

definition constructorSchema :: json where
  "constructorSchema = JObj
     [(''type'', JStr ''OBJECT''),
      (''constructor'', JObj [(''type'', JStr ''STRING'')])]"

definition sampleSchema :: json where
  "sampleSchema = JObj
     [(''type'', JStr ''OBJECT''),
      (''properties'', JObj
         [(''default'', JObj [(''type'', JStr ''STRING''), (''nullable'', JBool True),
                             (''enum'', JArr [JStr ''a'', JStr ''b''])]),
          (''constructor'', JObj [(''type'', JStr ''STRING'')]),
          (''n'', JObj [(''anyOf'', JArr [JObj [(''type'', JStr ''STRING'')],
                                        JObj [(''type'', JStr ''NUMBER'')]])])]),
      (''required'', JArr [JStr ''default''])]"

section \<open>The model-switch retry orchestrator: routing, buffering and retry\<close>





















section \<open>The messages handler (claudeApi.js)\<close>











text \<open>A part that carries neither a continuation token nor the reasoning flag.\<close>

definition cleanPart :: "gpart \<Rightarrow> bool" where
  "cleanPart p = (p_thoughtSignature p = None \<and> \<not> p_thought p)"




section \<open>The response transcoder: the non-streaming accumulator\<close>

text \<open>
  A content block of the outbound message: text, reasoning (\<^verbatim>\<open>thinking\<close>) with its optional
  \<^verbatim>\<open>signature\<close>, or a tool invocation \<open>ToolUseBlock id name input signature\<close>.
\<close>

datatype block =
    TextBlock string
  | ThinkingBlock string "string option"
  | ToolUseBlock string "string option" json "string option"

text \<open>
  The fields of \<^verbatim>\<open>NonStreamingProcessor\<close>, with the ledger and the number of tool ids made so
  far. \<^verbatim>\<open>makeToolUseId\<close> draws random bytes: it is the parameter \<open>mkId\<close>, asked for its
  \<open>n\<close>-th id.
\<close>

record ns_state =
  contentBlocks :: "block list"
  textBuilder :: string
  thinkingBuilder :: string
  hasToolCall :: bool
  ns_hasThinking :: bool
  thinkingSignature :: "string option"
  ns_trailingSignature :: "string option"
  ns_madeIds :: nat
  ns_ledger :: ledger

definition flushText :: "ns_state \<Rightarrow> ns_state" where
  "flushText st =
     (if textBuilder st = [] then st
      else st\<lparr>contentBlocks := contentBlocks st @ [TextBlock (textBuilder st)], textBuilder := []\<rparr>)"

definition flushThinking :: "ns_state \<Rightarrow> ns_state" where
  "flushThinking st =
     (if thinkingBuilder st = [] \<and> \<not> truthy (thinkingSignature st) then st
      else st\<lparr>contentBlocks := contentBlocks st @
                  [ThinkingBlock (thinkingBuilder st)
                     (if truthy (thinkingSignature st) then thinkingSignature st else None)],
              thinkingSignature := (if truthy (thinkingSignature st) then None
                                    else thinkingSignature st),
              thinkingBuilder := []\<rparr>)"

text \<open>
  The held token leaves as a zero-length reasoning block if the response has reasoning, and
  is dropped otherwise.
\<close>

definition releaseTrailing :: "ns_state \<Rightarrow> ns_state" where
  "releaseTrailing st =
     (if ns_hasThinking st
      then st\<lparr>contentBlocks := contentBlocks st @ [ThinkingBlock [] (ns_trailingSignature st)],
              ns_trailingSignature := None\<rparr>
      else st\<lparr>ns_trailingSignature := None\<rparr>)"

definition tokenOf :: "gpart \<Rightarrow> string option" where
  "tokenOf part = (if truthy (p_thoughtSignature part) then p_thoughtSignature part else None)"

definition nsFunctionCall :: "(nat \<Rightarrow> string) \<Rightarrow> function_call \<Rightarrow> string option \<Rightarrow> ns_state \<Rightarrow> ns_state" where
  "nsFunctionCall mkId fc signature st0 =
     (let st1 = flushText (flushThinking st0);
          st2 = (if truthy (ns_trailingSignature st1) then releaseTrailing st1 else st1);
          made = \<not> truthy (fc_id fc);
          toolId = (if made then mkId (ns_madeIds st2) else the (fc_id fc))
      in st2\<lparr>contentBlocks := contentBlocks st2 @
                  [ToolUseBlock toolId (fc_name fc) (orEmptyObject (fc_args fc)) signature],
              hasToolCall := True,
              ns_madeIds := (if made then Suc (ns_madeIds st2) else ns_madeIds st2),
              ns_ledger := rememberToolThoughtSignature (ns_ledger st2) (Some toolId) signature\<rparr>)"

definition nsThought :: "string \<Rightarrow> string option \<Rightarrow> ns_state \<Rightarrow> ns_state" where
  "nsThought t signature st0 =
     (let st1 = flushText st0;
          st2 = (if truthy (ns_trailingSignature st1) then releaseTrailing (flushThinking st1)
                 else st1);
          st3 = st2\<lparr>thinkingBuilder := thinkingBuilder st2 @ t\<rparr>
      in if truthy signature then st3\<lparr>thinkingSignature := signature\<rparr> else st3)"

definition nsPlainText :: "string \<Rightarrow> string option \<Rightarrow> ns_state \<Rightarrow> ns_state" where
  "nsPlainText t signature st0 =
     (if t = [] then (if truthy signature then st0\<lparr>ns_trailingSignature := signature\<rparr> else st0)
      else
        (let st1 = flushThinking st0;
             st2 = (if truthy (ns_trailingSignature st1) then releaseTrailing (flushText st1)
                    else st1);
             st3 = st2\<lparr>textBuilder := textBuilder st2 @ t\<rparr>
         in if truthy signature \<and> ns_hasThinking st3
            then (let st4 = flushText st3
                  in st4\<lparr>contentBlocks := contentBlocks st4 @ [ThinkingBlock [] signature]\<rparr>)
            else st3))"

definition processPart :: "(nat \<Rightarrow> string) \<Rightarrow> ns_state \<Rightarrow> gpart \<Rightarrow> ns_state" where
  "processPart mkId st part =
     (case p_functionCall part of
        Some fc \<Rightarrow> nsFunctionCall mkId fc (tokenOf part) st
      | None \<Rightarrow>
          (case p_text part of
             None \<Rightarrow> st
           | Some t \<Rightarrow> if p_thought part then nsThought t (tokenOf part) st
                       else nsPlainText t (tokenOf part) st))"

definition nsInitial :: "ledger \<Rightarrow> gpart list \<Rightarrow> ns_state" where
  "nsInitial l ps = \<lparr>contentBlocks = [], textBuilder = [], thinkingBuilder = [],
     hasToolCall = False, ns_hasThinking = list_ex p_thought ps, thinkingSignature = None,
     ns_trailingSignature = None, ns_madeIds = 0, ns_ledger = l\<rparr>"

definition nsFinish :: "ns_state \<Rightarrow> ns_state" where
  "nsFinish st0 =
     (let st1 = flushText (flushThinking st0)
      in if truthy (ns_trailingSignature st1) then releaseTrailing st1 else st1)"

text \<open>\<^verbatim>\<open>NonStreamingProcessor.process()\<close>: the state after the parts and the final flush.\<close>

definition nsProcess :: "(nat \<Rightarrow> string) \<Rightarrow> ledger \<Rightarrow> gpart list \<Rightarrow> ns_state" where
  "nsProcess mkId l ps = nsFinish (foldl (processPart mkId) (nsInitial l ps) ps)"

definition nsStopReason :: "ns_state \<Rightarrow> string option \<Rightarrow> string" where
  "nsStopReason st finish =
     (if hasToolCall st then ''tool_use''
      else if finish = Some ''MAX_TOKENS'' then ''max_tokens'' else ''end_turn'')"

text \<open>Parts of a backend response.\<close>

definition thoughtPart :: "string \<Rightarrow> string option \<Rightarrow> gpart" where
  "thoughtPart t sg = emptyPart\<lparr>p_text := Some t, p_thought := True, p_thoughtSignature := sg\<rparr>"

definition plainPart :: "string \<Rightarrow> string option \<Rightarrow> gpart" where
  "plainPart t sg = emptyPart\<lparr>p_text := Some t, p_thoughtSignature := sg\<rparr>"

definition callPart :: "string \<Rightarrow> string \<Rightarrow> string option \<Rightarrow> gpart" where
  "callPart i n sg = emptyPart\<lparr>p_functionCall := Some \<lparr>fc_name = Some n, fc_args = None, fc_id = Some i\<rparr>,
      p_thoughtSignature := sg\<rparr>"

section \<open>The response transcoder: the streaming state machine\<close>

text \<open>
  The events of the outbound stream that the part processor and the finish sequence emit.
  A block starts as text, as reasoning (always with an empty \<^verbatim>\<open>signature\<close> field) or as a
  tool invocation \<open>StartToolUse id name signature\<close>.
\<close>

datatype content_block = StartText | StartThinking | StartToolUse string "string option" "string option"

datatype delta = TextDelta string | ThinkingDelta string | SignatureDelta string
  | InputJsonDelta string

datatype event =
    ContentBlockStart nat content_block
  | ContentBlockDelta nat delta
  | ContentBlockStop nat
  | MessageDelta string
  | MessageStop

datatype block_type = BLOCK_NONE | BLOCK_TEXT | BLOCK_THINKING | BLOCK_FUNCTION

text \<open>
  The fields of \<^verbatim>\<open>StreamingState\<close> that the part processor uses, with the events emitted so
  far, the ledger and the number of tool ids made. \<open>pending\<close> is \<^verbatim>\<open>signatures.pending\<close>.
\<close>

record stream_state =
  emitted :: "event list"
  blockType :: block_type
  blockIndex :: nat
  usedTool :: bool
  hasThinking :: bool
  pending :: "string option"
  trailingSignature :: "string option"
  messageStopSent :: bool
  madeIds :: nat
  streamLedger :: ledger

definition emit :: "event \<Rightarrow> stream_state \<Rightarrow> stream_state" where
  "emit e st = st\<lparr>emitted := emitted st @ [e]\<rparr>"

definition emitDelta :: "delta \<Rightarrow> stream_state \<Rightarrow> stream_state" where
  "emitDelta d st = emit (ContentBlockDelta (blockIndex st) d) st"

definition endBlock :: "stream_state \<Rightarrow> stream_state" where
  "endBlock st =
     (if blockType st = BLOCK_NONE then st
      else
        (let st1 = (if blockType st = BLOCK_THINKING \<and> truthy (pending st)
                    then (emitDelta (SignatureDelta (the (pending st))) st)\<lparr>pending := None\<rparr>
                    else st);
             st2 = emit (ContentBlockStop (blockIndex st1)) st1
         in st2\<lparr>blockIndex := Suc (blockIndex st2), blockType := BLOCK_NONE\<rparr>))"

definition startBlock :: "block_type \<Rightarrow> content_block \<Rightarrow> stream_state \<Rightarrow> stream_state" where
  "startBlock ty cb st =
     (let st1 = (if blockType st \<noteq> BLOCK_NONE then endBlock st else st);
          st2 = emit (ContentBlockStart (blockIndex st1) cb) st1
      in st2\<lparr>blockType := ty\<rparr>)"

text \<open>
  The zero-length reasoning block that carries the held token, as \<^verbatim>\<open>process\<close> emits it
  through \<^verbatim>\<open>startBlock\<close> and \<^verbatim>\<open>endBlock\<close>.
\<close>

definition emitHeldToken :: "stream_state \<Rightarrow> stream_state" where
  "emitHeldToken st =
     endBlock (emitDelta (SignatureDelta (the (trailingSignature st)))
       (emitDelta (ThinkingDelta []) (startBlock BLOCK_THINKING StartThinking st)))"

text \<open>
  The same block as \<^verbatim>\<open>emitFinish\<close> and the branch for a token on a text part emit it,
  event by event.
\<close>

definition emitTokenBlock :: "string \<Rightarrow> stream_state \<Rightarrow> stream_state" where
  "emitTokenBlock sig st =
     (let st1 = emit (ContentBlockStart (blockIndex st) StartThinking) st;
          st2 = emitDelta (ThinkingDelta []) st1;
          st3 = emitDelta (SignatureDelta sig) st2;
          st4 = emit (ContentBlockStop (blockIndex st3)) st3
      in st4\<lparr>blockIndex := Suc (blockIndex st4)\<rparr>)"

definition processThinking :: "string \<Rightarrow> stream_state \<Rightarrow> stream_state" where
  "processThinking t st =
     (if blockType st = BLOCK_THINKING then emitDelta (ThinkingDelta t) st
      else emitDelta (ThinkingDelta t) (startBlock BLOCK_THINKING StartThinking st))"

definition processTextDelta :: "string \<Rightarrow> stream_state \<Rightarrow> stream_state" where
  "processTextDelta t st =
     (if t = [] then st
      else if blockType st = BLOCK_TEXT then emitDelta (TextDelta t) st
      else emitDelta (TextDelta t) (startBlock BLOCK_TEXT StartText st))"

definition processFunctionCall ::
  "(nat \<Rightarrow> string) \<Rightarrow> (json \<Rightarrow> string) \<Rightarrow> function_call \<Rightarrow> string option \<Rightarrow> stream_state
     \<Rightarrow> stream_state" where
  "processFunctionCall mkId toJson fc sigToUse st =
     (let made = \<not> truthy (fc_id fc);
          toolId = (if made then mkId (madeIds st) else the (fc_id fc));
          st1 = st\<lparr>madeIds := (if made then Suc (madeIds st) else madeIds st),
                   streamLedger := rememberToolThoughtSignature (streamLedger st) (Some toolId) sigToUse\<rparr>;
          st2 = startBlock BLOCK_FUNCTION (StartToolUse toolId (fc_name fc) sigToUse) st1;
          st3 = (case fc_args fc of
                   None \<Rightarrow> st2
                 | Some a \<Rightarrow> if jsTruthy a then emitDelta (InputJsonDelta (toJson a)) st2 else st2)
      in st3\<lparr>usedTool := True\<rparr>)"

text \<open>\<^verbatim>\<open>PartProcessor.process(part)\<close>.\<close>

definition dropOrEmitHeldToken :: "stream_state \<Rightarrow> stream_state" where
  "dropOrEmitHeldToken st =
     (if truthy (trailingSignature st)
      then (if hasThinking st then emitHeldToken st else st)\<lparr>trailingSignature := None\<rparr>
      else st)"

definition process :: "(nat \<Rightarrow> string) \<Rightarrow> (json \<Rightarrow> string) \<Rightarrow> stream_state \<Rightarrow> gpart \<Rightarrow> stream_state" where
  "process mkId toJson st part =
     (case p_functionCall part of
        Some fc \<Rightarrow> processFunctionCall mkId toJson fc (tokenOf part) (dropOrEmitHeldToken st)
      | None \<Rightarrow>
          (case p_text part of
             None \<Rightarrow> st
           | Some t \<Rightarrow>
               if \<not> p_thought part \<and> t = []
               then (if truthy (p_thoughtSignature part)
                     then st\<lparr>trailingSignature := p_thoughtSignature part\<rparr> else st)
               else if p_thought part
               then (let st1 = dropOrEmitHeldToken (st\<lparr>hasThinking := True\<rparr>);
                         st2 = processThinking t st1
                     in if truthy (p_thoughtSignature part)
                        then st2\<lparr>pending := p_thoughtSignature part\<rparr> else st2)
               else (let st1 = dropOrEmitHeldToken st
                     in if truthy (p_thoughtSignature part)
                        then (if \<not> hasThinking st1 then processTextDelta t st1
                              else emitTokenBlock (the (p_thoughtSignature part))
                                     (endBlock (emitDelta (TextDelta t)
                                        (startBlock BLOCK_TEXT StartText (endBlock st1)))))
                        else processTextDelta t st1)))"

text \<open>
  \<^verbatim>\<open>StreamingState.emitFinish(finishReason, usageMetadata)\<close>; the token counts of the final
  \<^verbatim>\<open>message_delta\<close> are left out.
\<close>

definition emitFinish :: "string option \<Rightarrow> stream_state \<Rightarrow> stream_state" where
  "emitFinish finishReason st0 =
     (let st1 = endBlock st0;
          st2 = (if truthy (trailingSignature st1) \<and> hasThinking st1
                 then (emitTokenBlock (the (trailingSignature st1)) st1)\<lparr>trailingSignature := None\<rparr>
                 else if truthy (trailingSignature st1) then st1\<lparr>trailingSignature := None\<rparr>
                 else st1);
          stopReason = (if usedTool st2 then ''tool_use''
                        else if finishReason = Some ''MAX_TOKENS'' then ''max_tokens''
                        else ''end_turn'');
          st3 = emit (MessageDelta stopReason) st2
      in if \<not> messageStopSent st3 then (emit MessageStop st3)\<lparr>messageStopSent := True\<rparr>
         else st3)"

definition streamInitial :: "ledger \<Rightarrow> stream_state" where
  "streamInitial l = \<lparr>emitted = [], blockType = BLOCK_NONE, blockIndex = 0, usedTool = False,
     hasThinking = False, pending = None, trailingSignature = None, messageStopSent = False,
     madeIds = 0, streamLedger = l\<rparr>"

text \<open>
  A streamed response outside the search mode: the parts of its chunks in order of
  arrival, then the finish sequence.
\<close>

definition streamProcess ::
  "(nat \<Rightarrow> string) \<Rightarrow> (json \<Rightarrow> string) \<Rightarrow> ledger \<Rightarrow> gpart list \<Rightarrow> string option \<Rightarrow> stream_state" where
  "streamProcess mkId toJson l ps finishReason =
     emitFinish finishReason (foldl (process mkId toJson) (streamInitial l) ps)"

section \<open>Token placement in a response\<close>

text \<open>
  The tool invocations of a response with their tokens, as the backend sent them and as
  each processor emits them.
\<close>

definition calledTools :: "gpart list \<Rightarrow> (string option \<times> string option) list" where
  "calledTools ps =
     concat (map (\<lambda>p. case p_functionCall p of
                          Some fc \<Rightarrow> [(fc_name fc, tokenOf p)] | None \<Rightarrow> []) ps)"

fun toolUseOfBlock :: "block \<Rightarrow> (string option \<times> string option) list" where
  "toolUseOfBlock (ToolUseBlock i n a s) = [(n, s)]"
| "toolUseOfBlock _ = []"

definition nsToolUses :: "block list \<Rightarrow> (string option \<times> string option) list" where
  "nsToolUses bs = concat (map toolUseOfBlock bs)"

fun toolUseOfEvent :: "event \<Rightarrow> (string option \<times> string option) list" where
  "toolUseOfEvent (ContentBlockStart k (StartToolUse i n s)) = [(n, s)]"
| "toolUseOfEvent _ = []"

definition streamToolUses :: "event list \<Rightarrow> (string option \<times> string option) list" where
  "streamToolUses evs = concat (map toolUseOfEvent evs)"

text \<open>The reasoning blocks of a message and the events of a stream that belong to one.\<close>

fun isThinkingBlock :: "block \<Rightarrow> bool" where
  "isThinkingBlock (ThinkingBlock t s) = True"
| "isThinkingBlock _ = False"

fun isThinkingEvent :: "event \<Rightarrow> bool" where
  "isThinkingEvent (ContentBlockStart k StartThinking) = True"
| "isThinkingEvent (ContentBlockDelta k (ThinkingDelta t)) = True"
| "isThinkingEvent (ContentBlockDelta k (SignatureDelta s)) = True"
| "isThinkingEvent _ = False"

text \<open>
  A reasoning part is what both processors treat as one: no function call, a text, and
  \<^verbatim>\<open>thought\<close> set. A holding part is an empty text part without \<^verbatim>\<open>thought\<close> that carries a
  token.
\<close>

definition isReasoning :: "gpart \<Rightarrow> bool" where
  "isReasoning p = (p_functionCall p = None \<and> p_text p \<noteq> None \<and> p_thought p)"

definition isHolding :: "gpart \<Rightarrow> bool" where
  "isHolding p = (p_functionCall p = None \<and> p_text p = Some [] \<and> \<not> p_thought p
                   \<and> truthy (p_thoughtSignature p))"

text \<open>
  The parts after a token-bearing reasoning part decide whether its token survives: it is
  written when the block is closed (by a function call, by a text that is not empty, by a
  held token that is released, or by the end of the response), and a token on a reasoning
  part that arrives before that takes its place.
\<close>

fun reasoningTokenKept :: "gpart list \<Rightarrow> bool" where
  "reasoningTokenKept [] = True"
| "reasoningTokenKept (p # ps) =
     (if p_functionCall p \<noteq> None then True
      else case p_text p of
             None \<Rightarrow> reasoningTokenKept ps
           | Some t \<Rightarrow>
               if p_thought p then \<not> truthy (p_thoughtSignature p) \<and> reasoningTokenKept ps
               else if t = [] then truthy (p_thoughtSignature p) \<or> reasoningTokenKept ps
               else True)"

text \<open>
  The parts after a holding part decide whether the held token leaves as a block of its
  own: another holding part replaces it; a reasoning part releases it; a function call, a
  text that is not empty and the end of the response release it if the processor knows of
  reasoning (\<open>seen\<close>) and drop it otherwise.
\<close>

fun heldTokenReleased :: "bool \<Rightarrow> gpart list \<Rightarrow> bool" where
  "heldTokenReleased seen [] = seen"
| "heldTokenReleased seen (p # ps) =
     (if p_functionCall p \<noteq> None then seen
      else case p_text p of
             None \<Rightarrow> heldTokenReleased seen ps
           | Some t \<Rightarrow>
               if p_thought p then True
               else if t = [] then \<not> truthy (p_thoughtSignature p) \<and> heldTokenReleased seen ps
               else seen)"

text \<open>The events of a zero-length reasoning block at index \<open>i\<close> that carries only a token.\<close>

definition tokenBlock :: "nat \<Rightarrow> string \<Rightarrow> event list" where
  "tokenBlock i s = [ContentBlockStart i StartThinking, ContentBlockDelta i (ThinkingDelta []),
     ContentBlockDelta i (SignatureDelta s), ContentBlockStop i]"

text \<open>
  In a stream, a reasoning text \<open>t\<close> and a token \<open>s\<close> are on one block when the thinking
  delta of \<open>t\<close> is followed, after further thinking deltas of the same block only, by the
  signature delta of \<open>s\<close> at the same index.
\<close>

fun signatureFollows :: "nat \<Rightarrow> string \<Rightarrow> event list \<Rightarrow> bool" where
  "signatureFollows i s [] = False"
| "signatureFollows i s (e # es) =
     (e = ContentBlockDelta i (SignatureDelta s)
      \<or> (case e of ContentBlockDelta k (ThinkingDelta u) \<Rightarrow> k = i \<and> signatureFollows i s es
          | _ \<Rightarrow> False))"

fun signedReasoning :: "string \<Rightarrow> string \<Rightarrow> event list \<Rightarrow> bool" where
  "signedReasoning t s [] = False"
| "signedReasoning t s (e # es) =
     ((case e of ContentBlockDelta i (ThinkingDelta u) \<Rightarrow> u = t \<and> signatureFollows i s es
       | _ \<Rightarrow> False)
      \<or> signedReasoning t s es)"

text \<open>In a message, they are on one block when a reasoning block has the token and the text.\<close>

fun signedThinkingBlock :: "string \<Rightarrow> string \<Rightarrow> block \<Rightarrow> bool" where
  "signedThinkingBlock t s (ThinkingBlock txt sg) = (sg = Some s \<and> str_includes txt t)"
| "signedThinkingBlock t s _ = False"

text \<open>A stream has the zero-length reasoning block of a token \<open>s\<close>.\<close>

fun emitsTokenBlock :: "string \<Rightarrow> event list \<Rightarrow> bool" where
  "emitsTokenBlock s [] = False"
| "emitsTokenBlock s (e # es) =
     ((case e of ContentBlockStart i StartThinking \<Rightarrow> take 3 es = tl (tokenBlock i s)
       | _ \<Rightarrow> False)
      \<or> emitsTokenBlock s es)"

text \<open>A response with a held token, a tool invocation, reasoning, text and a last held token.\<close>

definition sampleParts :: "gpart list" where
  "sampleParts = [plainPart [] (Some ''T''), callPart ''c1'' ''f'' (Some ''F''),
     thoughtPart ''b'' (Some ''B''), plainPart ''x'' None, plainPart [] (Some ''U'')]"

definition sampleStreamOf :: "gpart list \<Rightarrow> event list" where
  "sampleStreamOf ps =
     emitted (streamProcess (\<lambda>n. ''toolu'') (\<lambda>j. ''{}'') Map.empty ps (Some ''STOP''))"

definition sampleMessageOf :: "gpart list \<Rightarrow> block list" where
  "sampleMessageOf ps = contentBlocks (nsProcess (\<lambda>n. ''toolu'') Map.empty ps)"

section \<open>Invariants of the response processors\<close>

text \<open>A stream, and a message, that has no reasoning in it so far.\<close>

definition plainStream :: "stream_state \<Rightarrow> bool" where
  "plainStream st = (\<not> hasThinking st \<and> blockType st \<noteq> BLOCK_THINKING
      \<and> filter isThinkingEvent (emitted st) = [])"

definition plainMessage :: "ns_state \<Rightarrow> bool" where
  "plainMessage st = (\<not> ns_hasThinking st \<and> thinkingBuilder st = [] \<and> \<not> truthy (thinkingSignature st)
      \<and> filter isThinkingBlock (contentBlocks st) = [])"

text \<open>The later state of a stream has the events of the earlier one and more.\<close>

definition extends :: "stream_state \<Rightarrow> stream_state \<Rightarrow> bool" where
  "extends st st' = (\<exists>xs. emitted st' = emitted st @ xs)"

text \<open>
  The reasoning block at index \<open>i\<close> is open and its token \<open>s\<close> waits in \<open>pending\<close>; a later
  state \<open>closes\<close> it when the next event after the earlier state is the signature delta.
\<close>

definition openReasoning :: "nat \<Rightarrow> string \<Rightarrow> stream_state \<Rightarrow> bool" where
  "openReasoning i s st = (blockType st = BLOCK_THINKING \<and> pending st = Some s \<and> s \<noteq> []
      \<and> blockIndex st = i)"

definition closes :: "nat \<Rightarrow> string \<Rightarrow> stream_state \<Rightarrow> stream_state \<Rightarrow> bool" where
  "closes i s st st' = (\<exists>zs. emitted st' = emitted st @ ContentBlockDelta i (SignatureDelta s) # zs)"

text \<open>The later state of a message has the blocks of the earlier one.\<close>

definition grows :: "ns_state \<Rightarrow> ns_state \<Rightarrow> bool" where
  "grows st st' = (set (contentBlocks st) \<subseteq> set (contentBlocks st')
      \<and> ns_hasThinking st' = ns_hasThinking st)"

definition openThinking :: "string \<Rightarrow> string \<Rightarrow> ns_state \<Rightarrow> bool" where
  "openThinking s b st = (thinkingSignature st = Some s \<and> s \<noteq> [] \<and> thinkingBuilder st = b)"

text \<open>
  A token only waits in \<open>pending\<close> while a reasoning block is open, so the block that
  carries a held token carries nothing else; \<open>released\<close> says that such a block has been
  emitted since the earlier state.
\<close>

definition pendingOpen :: "stream_state \<Rightarrow> bool" where
  "pendingOpen st = (truthy (pending st) \<longrightarrow> blockType st = BLOCK_THINKING)"

definition released :: "string \<Rightarrow> stream_state \<Rightarrow> stream_state \<Rightarrow> bool" where
  "released s st st' = (\<exists>xs i ys. emitted st' = emitted st @ xs @ tokenBlock i s @ ys)"

chapter \<open>Properties\<close>

section \<open>The switch-signal detector concatenates before it tests\<close>

lemma scanChunks_char:
  "scanChunks parse chunks textOut \<longleftrightarrow>
     (\<exists>obj \<in> set (List.map_filter
          (\<lambda>chunk. case chunkPayload chunk of None \<Rightarrow> None | Some p \<Rightarrow> parse p) chunks).
        isMcpToolUseStart obj) \<or>
     str_includes (textOut @ concat (map textDeltaOf (List.map_filter
          (\<lambda>chunk. case chunkPayload chunk of None \<Rightarrow> None | Some p \<Rightarrow> parse p) chunks)))
       MCP_SWITCH_SIGNAL"
proof (induction chunks arbitrary: textOut)
  case Nil
  show ?case by (simp add: List.map_filter_simps)
next
  case (Cons chunk chunks)
  show ?case
  proof (cases "chunkPayload chunk")
    case None
    then show ?thesis using Cons.IH[of textOut] by (simp add: List.map_filter_simps)
  next
    case (Some payload)
    show ?thesis
    proof (cases "parse payload")
      case None
      then show ?thesis using Some Cons.IH[of textOut] by (simp add: List.map_filter_simps)
    next
      case (Some obj)
      then show ?thesis
        using \<open>chunkPayload chunk = Some payload\<close> Cons.IH[of "textOut @ textDeltaOf obj"]
        by (auto simp add: List.map_filter_simps)
    qed
  qed
qed

text \<open>
  C10. The detector answers yes exactly when some single event of the stream has the type
  \<^verbatim>\<open>content_block_start\<close> and a \<^verbatim>\<open>content_block\<close> of type \<^verbatim>\<open>tool_use\<close> whose name is a string
  that starts with \<^verbatim>\<open>mcp__\<close>, or the marker \<^verbatim>\<open>AG2API_SWITCH_TO_MCP_MODEL\<close> occurs in the
  concatenation, over the whole stream, of the texts of the events of type
  \<^verbatim>\<open>content_block_delta\<close> whose delta has the type \<^verbatim>\<open>text_delta\<close> and a string for text;
  so a marker whose characters are spread over several events is found, while a tool name
  is looked for in one event at a time.
\<close>

theorem hasMcpSwitchSignal_concatenates_text_deltas:
  "hasMcpSwitchSignal parse sse \<longleftrightarrow>
     (\<exists>obj \<in> set (parsedEvents parse sse).
         jget obj ''type'' = Some (JStr ''content_block_start'')
         \<and> jget2 obj ''content_block'' ''type'' = Some (JStr ''tool_use'')
         \<and> (\<exists>name. jget2 obj ''content_block'' ''name'' = Some (JStr name)
                     \<and> take 5 name = ''mcp__''))
     \<or> str_includes
          (concat (map (\<lambda>obj. case jget2 obj ''delta'' ''text'' of
                                 Some (JStr t) \<Rightarrow>
                                   if jget obj ''type'' = Some (JStr ''content_block_delta'')
                                      \<and> jget2 obj ''delta'' ''type'' = Some (JStr ''text_delta'')
                                   then t else []
                               | _ \<Rightarrow> [])
                     (parsedEvents parse sse)))
          ''AG2API_SWITCH_TO_MCP_MODEL''"
proof -
  have a: "isMcpToolUseStart obj \<longleftrightarrow>
       jget obj ''type'' = Some (JStr ''content_block_start'')
       \<and> jget2 obj ''content_block'' ''type'' = Some (JStr ''tool_use'')
       \<and> (\<exists>name. jget2 obj ''content_block'' ''name'' = Some (JStr name)
                   \<and> take 5 name = ''mcp__'')" for obj
    by (auto simp add: isMcpToolUseStart_def startsWith_def eval_nat_numeral
        split: option.splits json.splits)
  have b: "textDeltaOf = (\<lambda>obj. case jget2 obj ''delta'' ''text'' of
                                 Some (JStr t) \<Rightarrow>
                                   if jget obj ''type'' = Some (JStr ''content_block_delta'')
                                      \<and> jget2 obj ''delta'' ''type'' = Some (JStr ''text_delta'')
                                   then t else []
                               | _ \<Rightarrow> [])"
    by (rule ext) (simp add: textDeltaOf_def split: option.splits json.splits)
  show ?thesis
    unfolding hasMcpSwitchSignal_def parsedEvents_def
    using scanChunks_char[of parse "split sse [CHR 0x0A, CHR 0x0A]" "[]"]
    by (simp add: a b MCP_SWITCH_SIGNAL_def)
qed

theorem hasMcpSwitchSignal_split_marker_witness:
  "hasMcpSwitchSignal sampleParse sampleStream
   \<and> parsedEvents sampleParse sampleStream
       = [JObj [(''type'', JStr ''content_block_delta''),
            (''delta'', JObj [(''type'', JStr ''text_delta''), (''text'', JStr ''AG2API_SWITCH_'')])],
          JObj [(''type'', JStr ''content_block_delta''),
            (''delta'', JObj [(''type'', JStr ''text_delta''), (''text'', JStr ''TO_MCP_MODEL'')])]]
   \<and> \<not> str_includes ''AG2API_SWITCH_'' ''AG2API_SWITCH_TO_MCP_MODEL''
   \<and> \<not> str_includes ''TO_MCP_MODEL'' ''AG2API_SWITCH_TO_MCP_MODEL''
   \<and> hasMcpSwitchSignal sampleParse bridgedToolStream
   \<and> parsedEvents sampleParse bridgedToolStream
       = [JObj [(''type'', JStr ''content_block_start''),
            (''content_block'', JObj [(''type'', JStr ''tool_use''),
                                      (''name'', JStr ''mcp__serena__find'')])]]
   \<and> \<not> hasMcpSwitchSignal sampleParse nativeToolStream
   \<and> parsedEvents sampleParse nativeToolStream
       = [JObj [(''type'', JStr ''content_block_start''),
            (''content_block'', JObj [(''type'', JStr ''tool_use''), (''name'', JStr ''read_file'')])],
          JObj [(''type'', JStr ''content_block_start''),
            (''content_block'', JObj [(''type'', JStr ''text''),
                                      (''name'', JStr ''mcp__serena__find'')])],
          JObj [(''type'', JStr ''content_block_delta''),
            (''delta'', JObj [(''type'', JStr ''text_delta''), (''text'', JStr ''AG2API_SWITCH_'')])]]"
proof -
  have e1: "parsedEvents sampleParse sampleStream
       = [JObj [(''type'', JStr ''content_block_delta''),
            (''delta'', JObj [(''type'', JStr ''text_delta''), (''text'', JStr ''AG2API_SWITCH_'')])],
          JObj [(''type'', JStr ''content_block_delta''),
            (''delta'', JObj [(''type'', JStr ''text_delta''), (''text'', JStr ''TO_MCP_MODEL'')])]]"
    by code_simp
  have e2: "parsedEvents sampleParse bridgedToolStream
       = [JObj [(''type'', JStr ''content_block_start''),
            (''content_block'', JObj [(''type'', JStr ''tool_use''),
                                      (''name'', JStr ''mcp__serena__find'')])]]"
    by code_simp
  have e3: "parsedEvents sampleParse nativeToolStream
       = [JObj [(''type'', JStr ''content_block_start''),
            (''content_block'', JObj [(''type'', JStr ''tool_use''), (''name'', JStr ''read_file'')])],
          JObj [(''type'', JStr ''content_block_start''),
            (''content_block'', JObj [(''type'', JStr ''text''),
                                      (''name'', JStr ''mcp__serena__find'')])],
          JObj [(''type'', JStr ''content_block_delta''),
            (''delta'', JObj [(''type'', JStr ''text_delta''), (''text'', JStr ''AG2API_SWITCH_'')])]]"
    by code_simp
  have n1: "\<not> str_includes ''AG2API_SWITCH_'' ''AG2API_SWITCH_TO_MCP_MODEL''" by code_simp
  have n2: "\<not> str_includes ''TO_MCP_MODEL'' ''AG2API_SWITCH_TO_MCP_MODEL''" by code_simp
  have y: "str_includes (''AG2API_SWITCH_'' @ ''TO_MCP_MODEL'') ''AG2API_SWITCH_TO_MCP_MODEL''"
    by code_simp
  have s1: "hasMcpSwitchSignal sampleParse sampleStream"
    unfolding hasMcpSwitchSignal_concatenates_text_deltas[of sampleParse sampleStream] e1
    using y by (simp add: jget2_def)
  have s2: "hasMcpSwitchSignal sampleParse bridgedToolStream"
    unfolding hasMcpSwitchSignal_concatenates_text_deltas[of sampleParse bridgedToolStream] e2
    by (simp add: jget2_def)
  have s3: "\<not> hasMcpSwitchSignal sampleParse nativeToolStream"
    unfolding hasMcpSwitchSignal_concatenates_text_deltas[of sampleParse nativeToolStream] e3
    using n1 by (simp add: jget2_def)
  show ?thesis using e1 e2 e3 n1 n2 s1 s2 s3 by simp
qed

section \<open>The request transcoder: leading reasoning and segment isolation\<close>

lemma processItem_saw_mono:
  "sawNonThinkingContent st \<Longrightarrow> sawNonThinkingContent (processItem env role fwd hasFC st it)"
  by (cases it)
     (auto simp: processText_def processThinkingItem_def processRedactedThinking_def
        processImage_def processBridgedToolUse_def processNativeToolUse_def
        processToolResult_def Let_def)

lemma processItems_saw_mono:
  "sawNonThinkingContent st \<Longrightarrow> sawNonThinkingContent (processItems env role fwd hasFC st its)"
  unfolding processItems_def
  by (induction its arbitrary: st) (auto simp: processItem_saw_mono)

lemma processItems_append:
  "processItems env role fwd hasFC st (xs @ ys)
     = processItems env role fwd hasFC (processItems env role fwd hasFC st xs) ys"
  by (simp add: processItems_def)

lemma processItems_Cons:
  "processItems env role fwd hasFC st (x # ys)
     = processItems env role fwd hasFC (processItem env role fwd hasFC st x) ys"
  by (simp add: processItems_def)

text \<open>The items the claim calls non-reasoning: text, image, tool use and tool result.\<close>

lemma nonReasoning_part_sets_flag:
  assumes "nonReasoning it"
      and "parts (processItem env role fwd hasFC st it) \<noteq> parts st"
  shows "sawNonThinkingContent (processItem env role fwd hasFC st it)"
  using assms
  by (cases it)
     (auto simp: nonReasoning_def processText_def processImage_def processBridgedToolUse_def
        processNativeToolUse_def processToolResult_def Let_def split: if_splits)

lemma late_thinking_is_noop:
  "sawNonThinkingContent st \<Longrightarrow> th \<noteq> [] \<Longrightarrow>
     processThinkingItem fwd (Some th) sg st = st"
  by (simp add: processThinkingItem_def orEmpty_def)

lemma late_thinking_dropped:
  assumes "nonReasoning it"
      and "parts (processItem env role fwd hasFC (processItems env role fwd hasFC st pre) it)
             \<noteq> parts (processItems env role fwd hasFC st pre)"
      and "th \<noteq> []"
  shows "processItems env role fwd hasFC st (pre @ it # mid @ ThinkingItem (Some th) sg # post)
           = processItems env role fwd hasFC st (pre @ it # mid @ post)"
proof -
  let ?s1 = "processItem env role fwd hasFC (processItems env role fwd hasFC st pre) it"
  have "sawNonThinkingContent ?s1"
    using assms(1,2) by (rule nonReasoning_part_sets_flag)
  then have "sawNonThinkingContent (processItems env role fwd hasFC ?s1 mid)"
    by (rule processItems_saw_mono)
  then show ?thesis
    using assms(3)
    by (simp add: processItems_append processItems_Cons late_thinking_is_noop)
qed

lemma reasoning_text_reasoning:
  assumes "t \<noteq> []" and "t \<noteq> ''(no content)''" and "r2 \<noteq> []"
  shows "transformMessage env opts i
            \<lparr>msg_role = ''assistant'', msg_content =
               ContentItems [ThinkingItem r1 s1, TextItem (Some t), ThinkingItem (Some r2) s2]\<rparr> st
         = transformMessage env opts i
            \<lparr>msg_role = ''assistant'', msg_content =
               ContentItems [ThinkingItem r1 s1, TextItem (Some t)]\<rparr> st"
proof -
  let ?role = "transformRole ''assistant''"
  let ?fwd = "shouldForwardThoughtSignatures opts i"
  let ?s0 = "processItems env ?role ?fwd False (startMessage st) [ThinkingItem r1 s1]"
  have role: "?role = ''model''" by (simp add: transformRole_def)
  have grows: "parts (processItem env ?role ?fwd False ?s0 (TextItem (Some t))) \<noteq> parts ?s0"
    using assms(1,2) by (simp add: processText_def orEmpty_def role Let_def)
  have "processItems env ?role ?fwd False (startMessage st)
            ([ThinkingItem r1 s1] @ TextItem (Some t) # [] @ ThinkingItem (Some r2) s2 # [])
        = processItems env ?role ?fwd False (startMessage st)
            ([ThinkingItem r1 s1] @ TextItem (Some t) # [] @ [])"
    using grows assms(3) by (intro late_thinking_dropped) (simp_all add: nonReasoning_def)
  then show ?thesis
    by (simp add: transformMessage_def Let_def isFunctionCallToolUse_def)
qed

text \<open>
  C6. In the loop over the items of a message, once a text, image, tool-use or tool-result
  item has produced a part, a later reasoning item with non-empty text changes nothing: the
  loop ends in the state it reaches without that item. In particular an assistant message
  [reasoning, text, reasoning] is transformed as [reasoning, text] is.
\<close>

theorem leading_reasoning_enforced:
  "(nonReasoning it \<and> th \<noteq> [] \<and>
     parts (processItem env role fwd hasFC (processItems env role fwd hasFC st pre) it)
       \<noteq> parts (processItems env role fwd hasFC st pre)
    \<longrightarrow> processItems env role fwd hasFC st (pre @ it # mid @ ThinkingItem (Some th) sg # post)
          = processItems env role fwd hasFC st (pre @ it # mid @ post))
   \<and> (t \<noteq> [] \<and> t \<noteq> ''(no content)'' \<and> r2 \<noteq> []
    \<longrightarrow> transformMessage env opts i
            \<lparr>msg_role = ''assistant'', msg_content =
               ContentItems [ThinkingItem r1 s1, TextItem (Some t), ThinkingItem (Some r2) s2]\<rparr> st0
         = transformMessage env opts i
            \<lparr>msg_role = ''assistant'', msg_content =
               ContentItems [ThinkingItem r1 s1, TextItem (Some t)]\<rparr> st0)"
  using late_thinking_dropped reasoning_text_reasoning by blast

theorem leading_reasoning_witness:
  "map p_text (parts (transformMessage sampleEnv defaultOptions 0
       \<lparr>msg_role = ''assistant'', msg_content = ContentItems
          [ThinkingItem (Some ''plan'') (Some ''sigA''), TextItem (Some ''answer''),
           ThinkingItem (Some ''late'') (Some ''sigB'')]\<rparr> (initialState Map.empty)))
     = [Some ''plan'', Some ''answer'']
   \<and> map p_text (parts (processItems sampleEnv ''model'' True False (initialState Map.empty)
       ([ThinkingItem (Some ''plan'') (Some ''sigA'')] @ TextItem (Some ''answer'') # []
          @ ThinkingItem (Some ''late'') (Some ''sigB'') # [])))
     = [Some ''plan'', Some ''answer'']"
proof -
  have two: "map p_text (parts (transformMessage sampleEnv defaultOptions 0
       \<lparr>msg_role = ''assistant'', msg_content = ContentItems
          [ThinkingItem (Some ''plan'') (Some ''sigA''), TextItem (Some ''answer'')]\<rparr>
       (initialState Map.empty))) = [Some ''plan'', Some ''answer'']"
    by (simp add: transformMessage_def transformRole_def shouldForwardThoughtSignatures_def
          defaultOptions_def startMessage_def initialState_def processItems_def
          processThinkingItem_def processText_def orEmpty_def textPart_def emptyPart_def
          isFunctionCallToolUse_def backfill_def reorderUserParts_def Let_def)
  have pre: "map p_text (parts (processItems sampleEnv ''model'' True False (initialState Map.empty)
       ([ThinkingItem (Some ''plan'') (Some ''sigA'')] @ TextItem (Some ''answer'') # [] @ [])))
     = [Some ''plan'', Some ''answer'']"
    by (simp add: initialState_def processItems_def
          processThinkingItem_def processText_def orEmpty_def textPart_def emptyPart_def Let_def)
  have grows: "parts (processItem sampleEnv ''model'' True False
          (processItems sampleEnv ''model'' True False (initialState Map.empty)
             [ThinkingItem (Some ''plan'') (Some ''sigA'')]) (TextItem (Some ''answer'')))
       \<noteq> parts (processItems sampleEnv ''model'' True False (initialState Map.empty)
             [ThinkingItem (Some ''plan'') (Some ''sigA'')])"
    by (simp add: initialState_def processItems_def
          processThinkingItem_def processText_def orEmpty_def textPart_def emptyPart_def Let_def)
  have nr: "nonReasoning (TextItem (Some ''answer''))" by (simp add: nonReasoning_def)
  note inst = leading_reasoning_enforced[where it = "TextItem (Some ''answer'')"
      and th = "''late''" and env = sampleEnv and role = "''model''" and fwd = True
      and hasFC = False and st = "initialState Map.empty"
      and pre = "[ThinkingItem (Some ''plan'') (Some ''sigA'')]" and mid = "[]"
      and sg = "Some ''sigB''" and post = "[]" and t = "''answer''" and ?r2.0 = "''late''"
      and opts = defaultOptions and i = 0 and ?r1.0 = "Some ''plan''"
      and ?s1.0 = "Some ''sigA''" and ?s2.0 = "Some ''sigB''"
      and ?st0.0 = "initialState Map.empty"]
  show ?thesis using inst two pre grows nr by simp
qed

section \<open>Fold-back of a substitute segment\<close>




















section \<open>Segment isolation on retry, rejection of an empty body, verbatim replay\<close>

lemma cleanPart_simps [simp]:
  "cleanPart (textPart t)" "cleanPart (inlinePart md)" "cleanPart emptyPart"
  "cleanPart (p\<lparr>p_functionCall := fc\<rparr>) = cleanPart p"
  "cleanPart (p\<lparr>p_functionResponse := fr\<rparr>) = cleanPart p"
  "cleanPart (p\<lparr>p_thoughtSignature := None\<rparr>) = (\<not> p_thought p)"
  by (simp_all add: cleanPart_def textPart_def inlinePart_def emptyPart_def)





















section \<open>The schema sanitizer: nullable unions and sanitized schemas\<close>

text \<open>
  C7. On the schema \<^verbatim>\<open>{"type": ["string", "null"]}\<close> the sanitizer of ClaudeRequestUtils.js
  returns the type alone and drops the nullability, where the sanitizer with options
  returns the type together with \<^verbatim>\<open>nullable: true\<close>, in either casing: whatever the
  platform makes of \<^verbatim>\<open>"string".toUpperCase()\<close>, and \<^verbatim>\<open>STRING\<close> with the upper-casing of ASCII.
\<close>

theorem nullable_union_dropped_by_ClaudeRequestUtils:
  "cleanJsonSchemaUtils samplePlatform nullableString = JObj [(''type'', JStr ''STRING'')]
   \<and> cleanJsonSchema samplePlatform True nullableString
       = Some (JObj [(''type'', JStr ''STRING''), (''nullable'', JBool True)])
   \<and> cleanJsonSchema samplePlatform False nullableString
       = Some (JObj [(''type'', JStr ''string''), (''nullable'', JBool True)])
   \<and> cleanJsonSchemaUtils pf nullableString = JObj [(''type'', JStr (toUpperCase pf ''string''))]
   \<and> cleanJsonSchema pf True nullableString
       = Some (JObj [(''type'', JStr (toUpperCase pf ''string'')), (''nullable'', JBool True)])
   \<and> cleanJsonSchema pf False nullableString
       = Some (JObj [(''type'', JStr ''string''), (''nullable'', JBool True)])"
proof -
  have g: "cleanJsonSchemaUtils q nullableString = JObj [(''type'', JStr (toUpperCase q ''string''))]
   \<and> cleanJsonSchema q True nullableString
       = Some (JObj [(''type'', JStr (toUpperCase q ''string'')), (''nullable'', JBool True)])
   \<and> cleanJsonSchema q False nullableString
       = Some (JObj [(''type'', JStr ''string''), (''nullable'', JBool True)])" for q
    by (simp add: nullableString_def validationsOf_def validationFields_def
        List.map_filter_simps cleanEntryUtils_def cleanEntry_def combinators_def removeKeys_def
        inValidationFields_def objectPrototypeKeys_def normalizeTypeUnion_def
        finishSchemaUtils_def finishSchema_def applyConst_def dedupeEnum_def
        addValidationDescription_def propTruthy_def upperTypeValue_def Let_def)
  have u: "toUpperCase samplePlatform ''string'' = ''STRING''" by code_simp
  show ?thesis using g [of samplePlatform] g [of pf] by (simp only: u simp_thms)
qed

section \<open>The schema sanitizer leaves a sanitized schema alone\<close>

lemma map_filter_none: "(\<forall>x \<in> set xs. g x = None) \<Longrightarrow> List.map_filter g xs = []"
  by (induction xs) (auto simp: List.map_filter_simps)

lemma keywordFree_keys:
  assumes "keywordFree kvs" and "(k, v) \<in> set kvs"
  shows "k \<noteq> ''const''" and "k \<notin> set removeKeys" and "k \<notin> set validationFields"
  using assms by (auto simp: keywordFree_def list_all_iff)

lemma validationsOf_keywordFree: "keywordFree kvs \<Longrightarrow> validationsOf pf kvs = []"
proof -
  assume kf: "keywordFree kvs"
  have "\<forall>f \<in> set validationFields. map_of kvs f = None"
  proof
    fix f assume f: "f \<in> set validationFields"
    show "map_of kvs f = None"
    proof (cases "map_of kvs f")
      case None then show ?thesis .
    next
      case (Some v)
      then have "(f, v) \<in> set kvs" by (rule map_of_SomeD)
      then show ?thesis using keywordFree_keys(3)[OF kf] f by blast
    qed
  qed
  then show ?thesis unfolding validationsOf_def by (intro map_filter_none) simp
qed

lemma setProp_fresh: "k \<notin> fst ` set acc \<Longrightarrow> setProp acc k v = acc @ [(k, v)]"
  by (induction acc) auto

lemma those_map_fixed: "(\<forall>x \<in> set xs. f x = Some (g x)) \<Longrightarrow> those (map f xs) = Some (map g xs)"
  by (induction xs) auto

lemma zip_fst_snd: "zip (map fst pv) (map snd pv) = pv"
  by (induction pv) auto

text \<open>An entry of a sanitized schema goes through the loop unchanged.\<close>

lemma assignProp_fresh:
  "\<not> inValidationFields k \<Longrightarrow> k \<notin> fst ` set acc \<Longrightarrow> assignProp acc k v = acc @ [(k, v)]"
  by (simp add: assignProp_def inValidationFields_def objectPrototypeKeys_def setProp_fresh)

lemma filter_named: "list_all (\<lambda>(n, ps). n \<noteq> x) pv \<Longrightarrow> filter (\<lambda>(n, c). n \<noteq> x) pv = pv"
  by (induction pv) auto

lemma cleanEntry_fixed:
  assumes "k \<noteq> ''const''" and "k \<notin> set removeKeys" and "\<not> inValidationFields k"
      and "\<not> flattens k v"
      and "\<not> (k = ''type'' \<and> (case v of JArr _ \<Rightarrow> True | _ \<Rightarrow> False))"
      and "k \<notin> fst ` set acc"
      and "\<not> (k = ''properties'' \<and> (case v of JObj _ \<Rightarrow> True | _ \<Rightarrow> False))
             \<Longrightarrow> isObjectValue v \<Longrightarrow> cv = Some v"
      and "\<And>pv. k = ''properties'' \<Longrightarrow> v = JObj pv \<Longrightarrow>
             those cps = Some (map snd pv) \<and> list_all (\<lambda>(n, ps). n \<noteq> ''__proto__'') pv"
  shows "cleanEntry pf [] (acc, None) (k, v, cv, cps) = Some (acc @ [(k, v)], None)"
proof (cases "k \<in> set combinators")
  case True
  then have np: "k \<noteq> ''properties''" by (auto simp: combinators_def)
  show ?thesis
  proof (cases v)
    case (JArr xs)
    then have cv: "cv = Some (JArr xs)" using assms(7) np by (simp add: isObjectValue_def)
    have nf: "\<not> ((k = ''anyOf'' \<or> k = ''oneOf'') \<and> xs \<noteq> [] \<and> list_all isSimpleEnum xs
                  \<and> length (typesOf xs) \<le> 1)"
      using assms(4) JArr by (auto simp: flattens_def)
    show ?thesis
      using True JArr cv nf assms(3,6) by (auto simp: cleanEntry_def assignProp_fresh)
  qed (use True assms(3,6) in \<open>auto simp: cleanEntry_def assignProp_fresh\<close>)
next
  case False
  show ?thesis
  proof (cases "k = ''properties'' \<and> (case v of JObj _ \<Rightarrow> True | _ \<Rightarrow> False)")
    case True
    then obtain pv where v: "v = JObj pv" by (cases v) auto
    have "those cps = Some (map snd pv)" "list_all (\<lambda>(n, ps). n \<noteq> ''__proto__'') pv"
      using assms(8) True v by simp_all
    then show ?thesis
      using False True v assms(1,2,3,6)
      by (simp add: cleanEntry_def setProp_fresh zip_fst_snd filter_named)
  next
    case np: False
    show ?thesis
    proof (cases "isObjectValue v")
      case True
      then have "cv = Some v" using assms(7) np by simp
      then show ?thesis
        using False np True assms(1,2,3,5,6)
        by (auto simp: cleanEntry_def assignProp_fresh)
    next
      case nobj: False
      then show ?thesis
        using False np assms(1,2,3,5,6)
        by (auto simp: cleanEntry_def assignProp_fresh isObjectValue_def split: json.splits)
    qed
  qed
qed

lemma cleanJsonSchema_JObj:
  "cleanJsonSchema pf up (JObj kvs) =
     (case cleanEntries pf (validationsOf pf kvs) ([], None) (map (entryOf pf up) kvs) of
        None \<Rightarrow> None
      | Some st \<Rightarrow> finishSchema pf up (validationsOf pf kvs) st)"
proof -
  have "(\<lambda>(k, v). (k, v, cleanJsonSchema pf up v,
                               (case v of JObj pv \<Rightarrow> map (\<lambda>(n, ps). cleanJsonSchema pf up ps) pv
                                | _ \<Rightarrow> []))) = entryOf pf up"
    by (auto simp: entryOf_def fun_eq_iff)
  then show ?thesis by (simp only: cleanJsonSchema.simps)
qed

lemma cleanEntries_fixed:
  assumes "distinct (map fst rest)" and "fst ` set acc \<inter> fst ` set rest = {}"
      and "\<forall>kv \<in> set rest. entryFixed pf up kv"
  shows "cleanEntries pf [] (acc, None) (map (entryOf pf up) rest) = Some (acc @ rest, None)"
  using assms
proof (induction rest arbitrary: acc)
  case Nil
  show ?case by simp
next
  case (Cons kv rest)
  obtain k v where kv: "kv = (k, v)" by (cases kv)
  have fx: "entryFixed pf up (k, v)" using Cons.prems(3) kv by simp
  have fresh: "k \<notin> fst ` set acc" using Cons.prems(2) kv by auto
  have step: "cleanEntry pf [] (acc, None) (entryOf pf up (k, v)) = Some (acc @ [(k, v)], None)"
    unfolding entryOf_def prod.case
    using fx fresh
    by (intro cleanEntry_fixed) (auto simp: entryFixed_def)
  have d: "distinct (map fst rest)" using Cons.prems(1) by simp
  have dj: "fst ` set (acc @ [(k, v)]) \<inter> fst ` set rest = {}"
    using Cons.prems(1,2) kv by auto
  have rest: "\<forall>kv \<in> set rest. entryFixed pf up kv" using Cons.prems(3) by simp
  show ?case
    using step Cons.IH[OF d dj rest] kv by simp
qed

lemma those_props_fixed:
  assumes "\<forall>(n, ps) \<in> set pv. f ps = Some ps"
  shows "those (map (\<lambda>(n, ps). f ps) pv) = Some (map snd pv)"
  using assms by (intro those_map_fixed) auto

lemma sanitized_fixed: "sanitized pf up s \<Longrightarrow> cleanJsonSchema pf up s = Some s"
proof (induction pf up s rule: cleanJsonSchema.induct)
  case (1 pf up xs)
  have "\<forall>x \<in> set xs. cleanJsonSchema pf up x = Some (id x)"
    using 1 by (auto simp: list_all_iff)
  then have "those (map (cleanJsonSchema pf up) xs) = Some (map id xs)"
    by (rule those_map_fixed)
  then show ?case by simp
next
  case (2 pf up kvs)
  have san: "sanitized pf up (JObj kvs)" by fact
  have dist: "distinct (map fst kvs)" and kf: "keywordFree kvs"
    and npk: "list_all (\<lambda>(k, v). k \<notin> set objectPrototypeKeys) kvs"
    and ty: "(case map_of kvs ''type'' of Some (JArr _) \<Rightarrow> False | _ \<Rightarrow> True)"
    and nfl: "list_all (\<lambda>(k, v). \<not> flattens k v) kvs"
    and enum: "dedupeEnum kvs = Some kvs"
    and upper: "up \<Longrightarrow> uppercaseSchemaTypes pf (JObj kvs) = JObj kvs"
    and kids: "list_all (\<lambda>(k, v). case v of
                      JObj pv \<Rightarrow> if k = ''properties''
                                 then list_all (\<lambda>(n, ps). n \<noteq> ''__proto__'' \<and> sanitized pf up ps) pv
                                 else sanitized pf up v
                    | _ \<Rightarrow> sanitized pf up v) kvs"
    using san by (auto split: if_splits)
  have "\<forall>kv \<in> set kvs. entryFixed pf up kv"
  proof
    fix kv assume mem: "kv \<in> set kvs"
    obtain k v where kv: "kv = (k, v)" by (cases kv)
    have kmem: "(k, v) \<in> set kvs" using mem kv by simp
    have a: "k \<noteq> ''const''" "k \<notin> set removeKeys" "\<not> inValidationFields k"
      using keywordFree_keys[OF kf kmem] npk kmem
      by (auto simp: inValidationFields_def list_all_iff)
    have b: "\<not> flattens k v" using nfl kmem by (auto simp: list_all_iff)
    have c: "\<not> (k = ''type'' \<and> (case v of JArr _ \<Rightarrow> True | _ \<Rightarrow> False))"
    proof
      assume h: "k = ''type'' \<and> (case v of JArr _ \<Rightarrow> True | _ \<Rightarrow> False)"
      then have "map_of kvs ''type'' = Some v" using dist kmem by simp
      then show False using ty h by (cases v) auto
    qed
    have kid: "case v of
                 JObj pv \<Rightarrow> if k = ''properties''
                                 then list_all (\<lambda>(n, ps). n \<noteq> ''__proto__'' \<and> sanitized pf up ps) pv
                            else sanitized pf up v
               | _ \<Rightarrow> sanitized pf up v"
      using kids kmem unfolding list_all_iff by fastforce
    have d: "\<not> (k = ''properties'' \<and> (case v of JObj _ \<Rightarrow> True | _ \<Rightarrow> False))
              \<longrightarrow> isObjectValue v \<longrightarrow> cleanJsonSchema pf up v = Some v"
    proof (intro impI)
      assume np: "\<not> (k = ''properties'' \<and> (case v of JObj _ \<Rightarrow> True | _ \<Rightarrow> False))"
      then have "sanitized pf up v" using kid by (cases v) (auto split: if_splits)
      then show "cleanJsonSchema pf up v = Some v" using "2.IH"(1)[OF mem kv[symmetric]] by simp
    qed
    have e: "\<forall>pv. k = ''properties'' \<longrightarrow> v = JObj pv
          \<longrightarrow> those (map (\<lambda>(n, ps). cleanJsonSchema pf up ps) pv) = Some (map snd pv)
              \<and> list_all (\<lambda>(n, ps). n \<noteq> ''__proto__'') pv"
    proof (intro allI impI conjI)
      fix pv assume kp: "k = ''properties''" and v: "v = JObj pv"
      have "\<forall>(n, ps) \<in> set pv. cleanJsonSchema pf up ps = Some ps"
      proof (clarify)
        fix n ps assume pm: "(n, ps) \<in> set pv"
        have "sanitized pf up ps" using kid kp v pm by (auto simp: list_all_iff)
        then show "cleanJsonSchema pf up ps = Some ps"
          using "2.IH"(2)[OF mem kv[symmetric] v pm] by simp
      qed
      then show "those (map (\<lambda>(n, ps). cleanJsonSchema pf up ps) pv) = Some (map snd pv)"
        by (rule those_props_fixed)
      show "list_all (\<lambda>(n, ps). n \<noteq> ''__proto__'') pv"
        using kid kp v by (auto simp: list_all_iff)
    qed
    show "entryFixed pf up kv" using a b c d e kv by (simp add: entryFixed_def)
  qed
  then have loop: "cleanEntries pf [] ([], None) (map (entryOf pf up) kvs) = Some (kvs, None)"
    using cleanEntries_fixed[OF dist, of "[]" pf up] by simp
  have fin: "finishSchema pf up [] (kvs, None) = Some (JObj kvs)"
  proof (cases up)
    case True
    then show ?thesis
      using enum upper[OF True]
      by (simp add: finishSchema_def applyConst_def addValidationDescription_def Let_def
            del: uppercaseSchemaTypes.simps)
  next
    case False
    then show ?thesis
      using enum
      by (simp add: finishSchema_def applyConst_def addValidationDescription_def Let_def)
  qed
  show ?case
    using loop fin validationsOf_keywordFree[OF kf] by (simp add: cleanJsonSchema_JObj del: cleanJsonSchema.simps)
qed simp_all

lemma cleanJsonSchemaUtils_JObj:
  "cleanJsonSchemaUtils pf (JObj kvs) =
     finishSchemaUtils pf (validationsOf pf kvs)
       (foldl (cleanEntryUtils pf (validationsOf pf kvs)) ([], None) (map (entryOfUtils pf) kvs))"
proof -
  have "(\<lambda>(k, v). (k, v, cleanJsonSchemaUtils pf v,
                            (case v of JObj pv \<Rightarrow> map (\<lambda>(n, ps). cleanJsonSchemaUtils pf ps) pv
                             | _ \<Rightarrow> []))) = entryOfUtils pf"
    by (auto simp: entryOfUtils_def fun_eq_iff)
  then show ?thesis by (simp only: cleanJsonSchemaUtils.simps)
qed

lemma cleanEntryUtils_fixed:
  assumes "entryFixedUtils pf (k, v)" and "k \<notin> fst ` set acc"
  shows "cleanEntryUtils pf [] (acc, None) (entryOfUtils pf (k, v)) = (acc @ [(k, v)], None)"
proof (cases "k = ''properties'' \<and> (case v of JObj _ \<Rightarrow> True | _ \<Rightarrow> False)")
  case True
  then obtain pv where v: "v = JObj pv" by (cases v) auto
  have "map (\<lambda>(n, ps). cleanJsonSchemaUtils pf ps) pv = map snd pv"
    and np: "list_all (\<lambda>(n, ps). n \<noteq> ''__proto__'') pv"
    using assms(1) True v by (simp_all add: entryFixedUtils_def)
  then have z: "zip (map fst pv) (map (\<lambda>(n, ps). cleanJsonSchemaUtils pf ps) pv) = pv"
    by (simp only: zip_fst_snd)
  have k: "k \<noteq> ''const''" "k \<notin> set removeKeys" "\<not> inValidationFields k"
    using assms(1) by (auto simp: entryFixedUtils_def)
  show ?thesis
    using True v z k np assms(2)
    by (simp add: cleanEntryUtils_def entryOfUtils_def setProp_fresh filter_named)
next
  case np: False
  show ?thesis
  proof (cases "isObjectValue v")
    case True
    then show ?thesis
      using np assms
      by (auto simp: cleanEntryUtils_def entryOfUtils_def entryFixedUtils_def assignProp_fresh)
  next
    case False
    then show ?thesis
      using np assms
      by (auto simp: cleanEntryUtils_def entryOfUtils_def entryFixedUtils_def assignProp_fresh
            isObjectValue_def split: json.splits)
  qed
qed

lemma cleanEntriesUtils_fixed:
  assumes "distinct (map fst rest)" and "fst ` set acc \<inter> fst ` set rest = {}"
      and "\<forall>kv \<in> set rest. entryFixedUtils pf kv"
  shows "foldl (cleanEntryUtils pf []) (acc, None) (map (entryOfUtils pf) rest) = (acc @ rest, None)"
  using assms
proof (induction rest arbitrary: acc)
  case Nil
  show ?case by simp
next
  case (Cons kv rest)
  obtain k v where kv: "kv = (k, v)" by (cases kv)
  have fx: "entryFixedUtils pf (k, v)" using Cons.prems(3) kv by simp
  have fresh: "k \<notin> fst ` set acc" using Cons.prems(2) kv by auto
  note step = cleanEntryUtils_fixed[OF fx fresh]
  have d: "distinct (map fst rest)" using Cons.prems(1) by simp
  have dj: "fst ` set (acc @ [(k, v)]) \<inter> fst ` set rest = {}"
    using Cons.prems(1,2) kv by auto
  have rest: "\<forall>kv \<in> set rest. entryFixedUtils pf kv" using Cons.prems(3) by simp
  show ?case
    using step Cons.IH[OF d dj rest] kv by simp
qed

lemma sanitized_fixed_utils: "sanitized pf True s \<Longrightarrow> cleanJsonSchemaUtils pf s = s"
proof (induction pf s rule: cleanJsonSchemaUtils.induct)
  case (1 pf xs)
  have "\<forall>x \<in> set xs. cleanJsonSchemaUtils pf x = x"
    using 1 by (auto simp: list_all_iff)
  then have "map (cleanJsonSchemaUtils pf) xs = xs" by (simp add: map_idI)
  then show ?case by simp
next
  case (2 pf kvs)
  have san: "sanitized pf True (JObj kvs)" by fact
  have dist: "distinct (map fst kvs)" and kf: "keywordFree kvs"
    and npk: "list_all (\<lambda>(k, v). k \<notin> set objectPrototypeKeys) kvs"
    and ty: "(case map_of kvs ''type'' of Some (JArr _) \<Rightarrow> False | _ \<Rightarrow> True)"
    and upper: "uppercaseSchemaTypes pf (JObj kvs) = JObj kvs"
    and kids: "list_all (\<lambda>(k, v). case v of
                      JObj pv \<Rightarrow> if k = ''properties''
                                 then list_all (\<lambda>(n, ps). n \<noteq> ''__proto__'' \<and> sanitized pf True ps) pv
                                 else sanitized pf True v
                    | _ \<Rightarrow> sanitized pf True v) kvs"
    using san by (auto split: if_splits)
  have "\<forall>kv \<in> set kvs. entryFixedUtils pf kv"
  proof
    fix kv assume mem: "kv \<in> set kvs"
    obtain k v where kv: "kv = (k, v)" by (cases kv)
    have kmem: "(k, v) \<in> set kvs" using mem kv by simp
    have a: "k \<noteq> ''const''" "k \<notin> set removeKeys" "\<not> inValidationFields k"
      using keywordFree_keys[OF kf kmem] npk kmem
      by (auto simp: inValidationFields_def list_all_iff)
    have c: "\<not> (k = ''type'' \<and> (case v of JArr _ \<Rightarrow> True | _ \<Rightarrow> False))"
    proof
      assume h: "k = ''type'' \<and> (case v of JArr _ \<Rightarrow> True | _ \<Rightarrow> False)"
      then have "map_of kvs ''type'' = Some v" using dist kmem by simp
      then show False using ty h by (cases v) auto
    qed
    have kid: "case v of
                 JObj pv \<Rightarrow> if k = ''properties''
                                 then list_all (\<lambda>(n, ps). n \<noteq> ''__proto__'' \<and> sanitized pf True ps) pv
                            else sanitized pf True v
               | _ \<Rightarrow> sanitized pf True v"
      using kids kmem unfolding list_all_iff by fastforce
    have d: "\<not> (k = ''properties'' \<and> (case v of JObj _ \<Rightarrow> True | _ \<Rightarrow> False))
              \<longrightarrow> isObjectValue v \<longrightarrow> cleanJsonSchemaUtils pf v = v"
    proof (intro impI)
      assume np: "\<not> (k = ''properties'' \<and> (case v of JObj _ \<Rightarrow> True | _ \<Rightarrow> False))"
      then have "sanitized pf True v" using kid by (cases v) (auto split: if_splits)
      then show "cleanJsonSchemaUtils pf v = v" using "2.IH"(1)[OF mem kv[symmetric]] by simp
    qed
    have e: "\<forall>pv. k = ''properties'' \<longrightarrow> v = JObj pv
          \<longrightarrow> map (\<lambda>(n, ps). cleanJsonSchemaUtils pf ps) pv = map snd pv
              \<and> list_all (\<lambda>(n, ps). n \<noteq> ''__proto__'') pv"
    proof (intro allI impI conjI)
      fix pv assume kp: "k = ''properties''" and v: "v = JObj pv"
      have "\<forall>(n, ps) \<in> set pv. cleanJsonSchemaUtils pf ps = ps"
      proof (clarify)
        fix n ps assume pm: "(n, ps) \<in> set pv"
        have "sanitized pf True ps" using kid kp v pm by (auto simp: list_all_iff)
        then show "cleanJsonSchemaUtils pf ps = ps"
          using "2.IH"(2)[OF mem kv[symmetric] v pm] by simp
      qed
      then show "map (\<lambda>(n, ps). cleanJsonSchemaUtils pf ps) pv = map snd pv"
        by (intro map_cong) auto
      show "list_all (\<lambda>(n, ps). n \<noteq> ''__proto__'') pv"
        using kid kp v by (auto simp: list_all_iff)
    qed
    show "entryFixedUtils pf kv" using a c d e kv by (simp add: entryFixedUtils_def)
  qed
  then have loop: "foldl (cleanEntryUtils pf []) ([], None) (map (entryOfUtils pf) kvs) = (kvs, None)"
    using cleanEntriesUtils_fixed[OF dist, of "[]" pf] by simp
  have fin: "finishSchemaUtils pf [] (kvs, None) = JObj kvs"
    using upper
    by (simp add: finishSchemaUtils_def addValidationDescription_def Let_def
          del: uppercaseSchemaTypes.simps)
  show ?case
    using loop fin validationsOf_keywordFree[OF kf]
    by (simp add: cleanJsonSchemaUtils_JObj del: cleanJsonSchemaUtils.simps)
qed simp_all

text \<open>
  C8 (as amended). A schema tree is returned as it is, keys in their order, by the sanitizer
  with options in either casing mode, and by the sanitizer of ClaudeRequestUtils.js in
  its upper-casing mode, when at every object of the tree the keys are distinct, there is
  no \<^verbatim>\<open>const\<close>, none of the removed or lifted keywords and no key that is a name of
  \<^verbatim>\<open>Object.prototype\<close>, \<^verbatim>\<open>type\<close> is not a union array, no \<^verbatim>\<open>anyOf\<close> or \<^verbatim>\<open>oneOf\<close> is a list of
  pure enums over at most one type, \<^verbatim>\<open>enum\<close> has no repeated primitive, no property is named
  \<^verbatim>\<open>__proto__\<close>, and the type tokens are in the output casing, which is to say that
  \<^verbatim>\<open>toUpperCase\<close> of the platform leaves them as they are.
\<close>

theorem sanitizer_fixes_sanitized_schemas:
  "sanitized pf up s \<Longrightarrow>
     cleanJsonSchema pf up s = Some s \<and> (up \<longrightarrow> cleanJsonSchemaUtils pf s = s)"
  using sanitized_fixed[of pf up s] sanitized_fixed_utils[of pf s] by auto

theorem sanitizer_fixes_sanitized_schemas_witness:
  "sanitized samplePlatform True sampleSchema \<and> sanitized samplePlatform False sampleSchema
   \<and> cleanJsonSchema samplePlatform True sampleSchema = Some sampleSchema
   \<and> cleanJsonSchema samplePlatform False sampleSchema = Some sampleSchema
   \<and> cleanJsonSchemaUtils samplePlatform sampleSchema = sampleSchema"
proof -
  have t: "sanitized samplePlatform True sampleSchema" by code_simp
  have f: "sanitized samplePlatform False sampleSchema" by code_simp
  show ?thesis
    using sanitizer_fixes_sanitized_schemas[OF t] sanitizer_fixes_sanitized_schemas[OF f] t f
    by simp
qed

text \<open>
  The schema \<^verbatim>\<open>{"type": ["STRING"]}\<close> has no \<^verbatim>\<open>const\<close>, no removed or lifted keyword and an
  upper-case type token, and both sanitizers replace its \<^verbatim>\<open>type\<close> array by the string. The
  schema \<^verbatim>\<open>{"type": "OBJECT", "constructor": {"type": "STRING"}}\<close> meets the same conditions,
  and both sanitizers drop its second entry.
\<close>

theorem type_union_is_rewritten_counterexample:
  "statedAsSanitized samplePlatform unionSchema
   \<and> cleanJsonSchema samplePlatform True unionSchema = Some (JObj [(''type'', JStr ''STRING'')])
   \<and> cleanJsonSchemaUtils samplePlatform unionSchema = JObj [(''type'', JStr ''STRING'')]
   \<and> jget unionSchema ''type'' = Some (JArr [JStr ''STRING''])
   \<and> statedAsSanitized samplePlatform constructorSchema
   \<and> cleanJsonSchema samplePlatform True constructorSchema = Some (JObj [(''type'', JStr ''OBJECT'')])
   \<and> cleanJsonSchemaUtils samplePlatform constructorSchema = JObj [(''type'', JStr ''OBJECT'')]"
  by code_simp

section \<open>Token placement in a response\<close>

lemma streamToolUses_append: "streamToolUses (xs @ ys) = streamToolUses xs @ streamToolUses ys"
  by (simp add: streamToolUses_def)

lemma nsToolUses_append: "nsToolUses (xs @ ys) = nsToolUses xs @ nsToolUses ys"
  by (simp add: nsToolUses_def)

lemma calledTools_Cons:
  "calledTools (p # ps) =
     (case p_functionCall p of Some fc \<Rightarrow> [(fc_name fc, tokenOf p)] | None \<Rightarrow> []) @ calledTools ps"
  by (simp add: calledTools_def)

lemma endBlock_tools: "streamToolUses (emitted (endBlock st)) = streamToolUses (emitted st)"
  by (simp add: endBlock_def emitDelta_def emit_def Let_def streamToolUses_def)

lemma startBlock_tools:
  "streamToolUses (emitted (startBlock ty cb st)) =
     streamToolUses (emitted st) @ toolUseOfEvent (ContentBlockStart 0 cb)"
  by (cases cb) (simp_all add: startBlock_def endBlock_def emitDelta_def emit_def Let_def streamToolUses_def)

lemma dropOrEmitHeldToken_tools:
  "streamToolUses (emitted (dropOrEmitHeldToken st)) = streamToolUses (emitted st)"
  by (simp add: dropOrEmitHeldToken_def emitHeldToken_def endBlock_tools emitDelta_def emit_def
      streamToolUses_append startBlock_tools)
    (simp add: streamToolUses_def)

lemma process_tools:
  "streamToolUses (emitted (process mkId toJson st p)) =
     streamToolUses (emitted st) @ calledTools [p]"
proof -
  have emitD: "\<And>d s. streamToolUses (emitted (emitDelta d s)) = streamToolUses (emitted s)"
    by (simp add: emitDelta_def emit_def streamToolUses_def)
  have tb: "\<And>g s. streamToolUses (emitted (emitTokenBlock g s)) = streamToolUses (emitted s)"
    by (simp add: emitTokenBlock_def emitDelta_def emit_def streamToolUses_def Let_def)
  have th: "\<And>t s. streamToolUses (emitted (processThinking t s)) = streamToolUses (emitted s)"
    by (simp add: processThinking_def emitD startBlock_tools)
  have tx: "\<And>t s. streamToolUses (emitted (processTextDelta t s)) = streamToolUses (emitted s)"
    by (simp add: processTextDelta_def emitD startBlock_tools)
  have fc: "\<And>fc g s. streamToolUses (emitted (processFunctionCall mkId toJson fc g s)) =
      streamToolUses (emitted s) @ [(fc_name fc, g)]"
    by (simp add: processFunctionCall_def Let_def emitD startBlock_tools split: option.splits)
  show ?thesis
    by (simp add: process_def calledTools_def Let_def fc th tx tb emitD endBlock_tools
        startBlock_tools dropOrEmitHeldToken_tools split: option.splits)
qed

lemma foldl_process_tools:
  "streamToolUses (emitted (foldl (process mkId toJson) st ps)) =
     streamToolUses (emitted st) @ calledTools ps"
proof (induction ps arbitrary: st)
  case Nil
  show ?case by (simp add: calledTools_def)
next
  case (Cons p ps)
  have "calledTools (p # ps) = calledTools [p] @ calledTools ps"
    by (simp add: calledTools_def)
  then show ?case using Cons.IH [of "process mkId toJson st p"]
    by (simp add: process_tools)
qed

lemma emitFinish_tools: "streamToolUses (emitted (emitFinish fr st)) = streamToolUses (emitted st)"
proof -
  have tb: "\<And>g s. streamToolUses (emitted (emitTokenBlock g s)) = streamToolUses (emitted s)"
    by (simp add: emitTokenBlock_def emitDelta_def emit_def streamToolUses_def Let_def)
  show ?thesis
    by (simp add: emitFinish_def Let_def emit_def streamToolUses_append tb endBlock_tools)
      (simp add: streamToolUses_def)
qed

lemma streamProcess_tools:
  "streamToolUses (emitted (streamProcess mkId toJson l ps fr)) = calledTools ps"
  by (simp add: streamProcess_def emitFinish_tools foldl_process_tools)
    (simp add: streamInitial_def streamToolUses_def)

lemma flushText_tools: "nsToolUses (contentBlocks (flushText st)) = nsToolUses (contentBlocks st)"
  by (simp add: flushText_def nsToolUses_def)

lemma flushThinking_tools:
  "nsToolUses (contentBlocks (flushThinking st)) = nsToolUses (contentBlocks st)"
  by (simp add: flushThinking_def nsToolUses_def)

lemma releaseTrailing_tools:
  "nsToolUses (contentBlocks (releaseTrailing st)) = nsToolUses (contentBlocks st)"
  by (simp add: releaseTrailing_def nsToolUses_def)

lemma processPart_tools:
  "nsToolUses (contentBlocks (processPart mkId st p)) =
     nsToolUses (contentBlocks st) @ calledTools [p]"
proof -
  have fc: "\<And>fc g s. nsToolUses (contentBlocks (nsFunctionCall mkId fc g s)) =
      nsToolUses (contentBlocks s) @ [(fc_name fc, g)]"
    by (simp add: nsFunctionCall_def Let_def nsToolUses_append flushText_tools
        flushThinking_tools releaseTrailing_tools)
      (simp add: nsToolUses_def)
  have th: "\<And>t g s. nsToolUses (contentBlocks (nsThought t g s)) = nsToolUses (contentBlocks s)"
    by (simp add: nsThought_def Let_def flushText_tools flushThinking_tools releaseTrailing_tools)
  have tx: "\<And>t g s. nsToolUses (contentBlocks (nsPlainText t g s)) = nsToolUses (contentBlocks s)"
    by (simp add: nsPlainText_def Let_def nsToolUses_append flushText_tools flushThinking_tools
        releaseTrailing_tools)
      (simp add: nsToolUses_def)
  show ?thesis
    by (simp add: processPart_def calledTools_def fc th tx split: option.splits)
qed

lemma foldl_processPart_tools:
  "nsToolUses (contentBlocks (foldl (processPart mkId) st ps)) =
     nsToolUses (contentBlocks st) @ calledTools ps"
proof (induction ps arbitrary: st)
  case Nil
  show ?case by (simp add: calledTools_def)
next
  case (Cons p ps)
  have "calledTools (p # ps) = calledTools [p] @ calledTools ps"
    by (simp add: calledTools_def)
  then show ?case using Cons.IH [of "processPart mkId st p"]
    by (simp add: processPart_tools)
qed

lemma nsProcess_tools: "nsToolUses (contentBlocks (nsProcess mkId l ps)) = calledTools ps"
  by (simp add: nsProcess_def nsFinish_def Let_def flushText_tools flushThinking_tools
      releaseTrailing_tools foldl_processPart_tools)
    (simp add: nsInitial_def nsToolUses_def)

lemma endBlock_plain: "plainStream st \<Longrightarrow> plainStream (endBlock st)"
  by (simp add: plainStream_def endBlock_def emitDelta_def emit_def Let_def)

lemma process_plain:
  assumes "plainStream st" "\<not> p_thought p"
  shows "plainStream (process mkId toJson st p)"
proof (cases "p_functionCall p")
  case (Some fc)
  then show ?thesis using assms
    by (auto simp add: plainStream_def process_def dropOrEmitHeldToken_def
        processFunctionCall_def startBlock_def endBlock_def emitDelta_def emit_def Let_def
        split: option.splits)
next
  case None
  then show ?thesis using assms
    by (auto simp add: plainStream_def process_def dropOrEmitHeldToken_def
        processTextDelta_def startBlock_def endBlock_def emitDelta_def emit_def Let_def
        split: option.splits)
qed

lemma foldl_process_plain:
  "plainStream st \<Longrightarrow> \<not> list_ex p_thought ps \<Longrightarrow> plainStream (foldl (process mkId toJson) st ps)"
  by (induction ps arbitrary: st) (simp_all add: process_plain)

lemma emitFinish_plain:
  assumes "plainStream st"
  shows "filter isThinkingEvent (emitted (emitFinish fr st)) = []"
proof -
  have "plainStream (endBlock st)" using assms by (rule endBlock_plain)
  then show ?thesis
    by (simp add: emitFinish_def Let_def plainStream_def emit_def)
qed

lemma streamProcess_plain:
  assumes "\<not> list_ex p_thought ps"
  shows "filter isThinkingEvent (emitted (streamProcess mkId toJson l ps fr)) = []"
proof -
  have "plainStream (streamInitial l)" by (simp add: plainStream_def streamInitial_def)
  then have "plainStream (foldl (process mkId toJson) (streamInitial l) ps)"
    using assms by (rule foldl_process_plain)
  then show ?thesis unfolding streamProcess_def by (rule emitFinish_plain)
qed

lemma processPart_plain:
  assumes "plainMessage st" "\<not> p_thought p"
  shows "plainMessage (processPart mkId st p)"
  using assms
  by (auto simp add: plainMessage_def processPart_def nsFunctionCall_def nsPlainText_def
      flushText_def flushThinking_def releaseTrailing_def Let_def split: option.splits)

lemma foldl_processPart_plain:
  "plainMessage st \<Longrightarrow> \<not> list_ex p_thought ps \<Longrightarrow> plainMessage (foldl (processPart mkId) st ps)"
  by (induction ps arbitrary: st) (simp_all add: processPart_plain)

lemma nsProcess_plain:
  assumes "\<not> list_ex p_thought ps"
  shows "filter isThinkingBlock (contentBlocks (nsProcess mkId l ps)) = []"
proof -
  have "plainMessage (nsInitial l ps)" using assms by (simp add: plainMessage_def nsInitial_def)
  then have "plainMessage (foldl (processPart mkId) (nsInitial l ps) ps)"
    using assms by (rule foldl_processPart_plain)
  then show ?thesis
    by (simp add: nsProcess_def nsFinish_def plainMessage_def flushText_def flushThinking_def
        releaseTrailing_def Let_def)
qed

lemma extends_refl: "extends st st"
  by (simp add: extends_def)

lemma extends_trans: "extends a b \<Longrightarrow> extends b c \<Longrightarrow> extends a c"
  by (auto simp add: extends_def)

lemma endBlock_extends: "extends st (endBlock st)"
  by (simp add: extends_def endBlock_def emitDelta_def emit_def Let_def)

lemma startBlock_extends: "extends st (startBlock ty cb st)"
  by (simp add: extends_def startBlock_def endBlock_def emitDelta_def emit_def Let_def)

lemma emitDelta_extends: "extends st (emitDelta d st)"
  by (simp add: extends_def emitDelta_def emit_def)

lemma emitTokenBlock_extends: "extends st (emitTokenBlock g st)"
  by (simp add: extends_def emitTokenBlock_def emitDelta_def emit_def Let_def)

lemma dropOrEmitHeldToken_extends: "extends st (dropOrEmitHeldToken st)"
  by (simp add: extends_def dropOrEmitHeldToken_def emitHeldToken_def startBlock_def endBlock_def
      emitDelta_def emit_def Let_def)

lemma processFunctionCall_extends: "extends st (processFunctionCall mkId toJson fc g st)"
  by (simp add: extends_def processFunctionCall_def startBlock_def endBlock_def
      emitDelta_def emit_def Let_def split: option.splits)

lemma processThinking_extends: "extends st (processThinking t st)"
  by (simp add: extends_def processThinking_def startBlock_def endBlock_def
      emitDelta_def emit_def Let_def)

lemma processTextDelta_extends: "extends st (processTextDelta t st)"
  by (simp add: extends_def processTextDelta_def startBlock_def endBlock_def
      emitDelta_def emit_def Let_def)

lemma extends_update:
  "extends st (st'\<lparr>pending := x\<rparr>) = extends st st'"
  "extends st (st'\<lparr>trailingSignature := y\<rparr>) = extends st st'"
  "extends (st\<lparr>hasThinking := z\<rparr>) st' = extends st st'"
  "extends (st\<lparr>trailingSignature := y\<rparr>) st' = extends st st'"
  by (simp_all add: extends_def)

lemma process_extends: "extends st (process mkId toJson st p)"
proof (cases "p_functionCall p")
  case (Some fc)
  have "extends (dropOrEmitHeldToken st)
          (processFunctionCall mkId toJson fc (tokenOf p) (dropOrEmitHeldToken st))"
    by (rule processFunctionCall_extends)
  with dropOrEmitHeldToken_extends [of st] show ?thesis
    using Some by (simp add: process_def) (rule extends_trans)
next
  case None
  show ?thesis
  proof (cases "p_text p")
    case nt: None
    then show ?thesis using None by (simp add: process_def extends_refl)
  next
    case (Some t)
    let ?h = "dropOrEmitHeldToken (st\<lparr>hasThinking := True\<rparr>)"
    let ?d = "dropOrEmitHeldToken st"
    have a: "extends st (processThinking t ?h)"
      using dropOrEmitHeldToken_extends [of "st\<lparr>hasThinking := True\<rparr>"]
        processThinking_extends [of ?h t]
      by (simp add: extends_update) (rule extends_trans)
    have b: "extends st (processTextDelta t ?d)"
      using dropOrEmitHeldToken_extends [of st] processTextDelta_extends [of ?d t]
      by (rule extends_trans)
    have c: "extends st (emitTokenBlock g (endBlock (emitDelta (TextDelta t)
                (startBlock BLOCK_TEXT StartText (endBlock ?d)))))" for g
      by (meson dropOrEmitHeldToken_extends endBlock_extends startBlock_extends
          emitDelta_extends emitTokenBlock_extends extends_trans)
    show ?thesis using None Some a b c
      by (simp add: process_def Let_def extends_update extends_refl)
  qed
qed

lemma foldl_process_extends: "extends st (foldl (process mkId toJson) st ps)"
proof (induction ps arbitrary: st)
  case Nil
  show ?case by (simp add: extends_refl)
next
  case (Cons p ps)
  show ?case using process_extends [of st mkId toJson p] Cons.IH [of "process mkId toJson st p"]
    by (simp) (rule extends_trans)
qed

lemma emitFinish_extends: "extends st (emitFinish fr st)"
  by (simp add: extends_def emitFinish_def emitTokenBlock_def endBlock_def emitDelta_def emit_def
      Let_def)

lemma run_extends: "extends st (emitFinish fr (foldl (process mkId toJson) st ps))"
  using foldl_process_extends emitFinish_extends by (rule extends_trans)

lemma closes_extends: "closes i s st st' \<Longrightarrow> extends st' st'' \<Longrightarrow> closes i s st st''"
  by (auto simp add: closes_def extends_def)

lemma closes_update:
  "closes i s st (st'\<lparr>pending := x\<rparr>) = closes i s st st'"
  "closes i s st (st'\<lparr>trailingSignature := y\<rparr>) = closes i s st st'"
  "closes i s st (st'\<lparr>usedTool := z\<rparr>) = closes i s st st'"
  "closes i s (st\<lparr>hasThinking := z\<rparr>) st' = closes i s st st'"
  by (simp_all add: closes_def)

lemma endBlock_closes: "openReasoning i s st \<Longrightarrow> closes i s st (endBlock st)"
  by (simp add: openReasoning_def closes_def endBlock_def emitDelta_def emit_def Let_def)

lemma startBlock_closes: "openReasoning i s st \<Longrightarrow> closes i s st (startBlock ty cb st)"
  by (simp add: openReasoning_def closes_def startBlock_def endBlock_def emitDelta_def emit_def
      Let_def)

lemma openReasoning_update:
  "openReasoning i s (st\<lparr>hasThinking := z\<rparr>) = openReasoning i s st"
  "openReasoning i s (st\<lparr>trailingSignature := y\<rparr>) = openReasoning i s st"
  "openReasoning i s (st\<lparr>madeIds := m, streamLedger := l\<rparr>) = openReasoning i s st"
  by (simp_all add: openReasoning_def)

lemma held_closes:
  assumes "openReasoning i s st" "truthy (trailingSignature st)" "hasThinking st"
  shows "closes i s st (dropOrEmitHeldToken st)"
proof -
  have "closes i s st (startBlock BLOCK_THINKING StartThinking st)"
    using assms(1) by (rule startBlock_closes)
  moreover have "extends (startBlock BLOCK_THINKING StartThinking st) (emitHeldToken st)"
    unfolding emitHeldToken_def
    by (meson emitDelta_extends endBlock_extends extends_trans)
  ultimately have "closes i s st (emitHeldToken st)" by (rule closes_extends)
  then show ?thesis using assms(2,3) by (simp add: dropOrEmitHeldToken_def closes_update)
qed

lemma held_keeps_open:
  assumes "openReasoning i s st" "\<not> (truthy (trailingSignature st) \<and> hasThinking st)"
  shows "openReasoning i s (dropOrEmitHeldToken st) \<and> emitted (dropOrEmitHeldToken st) = emitted st
    \<and> \<not> truthy (trailingSignature (dropOrEmitHeldToken st))
    \<and> hasThinking (dropOrEmitHeldToken st) = hasThinking st"
  using assms by (auto simp add: dropOrEmitHeldToken_def openReasoning_def)

lemma processFunctionCall_closes:
  assumes "openReasoning i s st"
  shows "closes i s st (processFunctionCall mkId toJson fc g st)"
proof -
  define toolId where "toolId = (if \<not> truthy (fc_id fc) then mkId (madeIds st) else the (fc_id fc))"
  define u where "u = st\<lparr>madeIds := (if \<not> truthy (fc_id fc) then Suc (madeIds st) else madeIds st),
       streamLedger := rememberToolThoughtSignature (streamLedger st) (Some toolId) g\<rparr>"
  define sb where "sb = startBlock BLOCK_FUNCTION (StartToolUse toolId (fc_name fc) g) u"
  have "openReasoning i s u" using assms by (simp add: u_def openReasoning_def)
  then have "closes i s u sb" unfolding sb_def by (rule startBlock_closes)
  then have c: "closes i s st sb" by (simp add: closes_def u_def)
  then have d: "closes i s st (emitDelta x sb)" for x
    using emitDelta_extends by (rule closes_extends)
  have "processFunctionCall mkId toJson fc g st =
      (case fc_args fc of None \<Rightarrow> sb
       | Some a \<Rightarrow> if jsTruthy a then emitDelta (InputJsonDelta (toJson a)) sb else sb)
      \<lparr>usedTool := True\<rparr>"
    unfolding processFunctionCall_def Let_def sb_def u_def toolId_def by (rule refl)
  then show ?thesis using c d by (simp add: closes_update split: option.splits)
qed

lemma call_closes:
  assumes "openReasoning i s st"
  shows "closes i s st (processFunctionCall mkId toJson fc g (dropOrEmitHeldToken st))"
proof (cases "truthy (trailingSignature st) \<and> hasThinking st")
  case True
  then have "closes i s st (dropOrEmitHeldToken st)" using assms by (simp add: held_closes)
  then show ?thesis using processFunctionCall_extends by (rule closes_extends)
next
  case False
  let ?d = "dropOrEmitHeldToken st"
  have k: "openReasoning i s ?d" "emitted ?d = emitted st"
    using held_keeps_open [OF assms False] by simp_all
  have "closes i s ?d (processFunctionCall mkId toJson fc g ?d)"
    using k(1) by (rule processFunctionCall_closes)
  then show ?thesis using k(2) by (simp add: closes_def)
qed

lemma text_closes:
  assumes "openReasoning i s st" "t \<noteq> []"
  shows "closes i s st (processTextDelta t st)"
    and "closes i s st (emitTokenBlock g (endBlock (emitDelta (TextDelta t)
           (startBlock BLOCK_TEXT StartText (endBlock st)))))"
proof -
  have "closes i s st (startBlock BLOCK_TEXT StartText st)"
    using assms(1) by (rule startBlock_closes)
  then have "closes i s st (emitDelta (TextDelta t) (startBlock BLOCK_TEXT StartText st))"
    using emitDelta_extends by (rule closes_extends)
  then show "closes i s st (processTextDelta t st)"
    using assms by (simp add: processTextDelta_def openReasoning_def)
  have "closes i s st (endBlock st)" using assms(1) by (rule endBlock_closes)
  moreover have "extends (endBlock st) (emitTokenBlock g (endBlock (emitDelta (TextDelta t)
           (startBlock BLOCK_TEXT StartText (endBlock st)))))"
    by (meson endBlock_extends startBlock_extends emitDelta_extends emitTokenBlock_extends
        extends_trans)
  ultimately show "closes i s st (emitTokenBlock g (endBlock (emitDelta (TextDelta t)
           (startBlock BLOCK_TEXT StartText (endBlock st)))))"
    by (rule closes_extends)
qed

lemma plain_closes:
  assumes "openReasoning i s st" "p_functionCall p = None" "p_text p = Some t" "\<not> p_thought p"
    "t \<noteq> []"
  shows "closes i s st (process mkId toJson st p)"
proof (cases "truthy (trailingSignature st) \<and> hasThinking st")
  case True
  then have c: "closes i s st (dropOrEmitHeldToken st)" using assms(1) by (simp add: held_closes)
  let ?d = "dropOrEmitHeldToken st"
  have "extends ?d (processTextDelta t ?d)" by (rule processTextDelta_extends)
  moreover have "extends ?d (emitTokenBlock g (endBlock (emitDelta (TextDelta t)
           (startBlock BLOCK_TEXT StartText (endBlock ?d)))))" for g
    by (meson endBlock_extends startBlock_extends emitDelta_extends emitTokenBlock_extends
        extends_trans)
  ultimately show ?thesis using assms(2-5) closes_extends [OF c]
    by (simp add: process_def Let_def)
next
  case False
  let ?d = "dropOrEmitHeldToken st"
  have k: "openReasoning i s ?d" "emitted ?d = emitted st"
    using held_keeps_open [OF assms(1) False] by simp_all
  have "closes i s ?d (processTextDelta t ?d)"
    and "\<And>g. closes i s ?d (emitTokenBlock g (endBlock (emitDelta (TextDelta t)
           (startBlock BLOCK_TEXT StartText (endBlock ?d)))))"
    using text_closes [OF k(1) assms(5)] by simp_all
  then show ?thesis using assms(2-5) k(2)
    by (simp add: process_def Let_def closes_def)
qed

lemma thought_step:
  assumes "openReasoning i s st" "p_functionCall p = None" "p_text p = Some t" "p_thought p"
    and "truthy (trailingSignature st) \<or> \<not> truthy (p_thoughtSignature p)"
  shows "closes i s st (process mkId toJson st p)
       \<or> (openReasoning i s (process mkId toJson st p)
          \<and> emitted (process mkId toJson st p) = emitted st @ [ContentBlockDelta i (ThinkingDelta t)]
          \<and> trailingSignature (process mkId toJson st p) = trailingSignature st)"
proof (cases "truthy (trailingSignature st)")
  case True
  let ?h = "st\<lparr>hasThinking := True\<rparr>"
  have "closes i s ?h (dropOrEmitHeldToken ?h)"
    using assms(1) True by (intro held_closes) (simp_all add: openReasoning_update)
  then have "closes i s ?h (processThinking t (dropOrEmitHeldToken ?h))"
    using processThinking_extends by (rule closes_extends)
  then show ?thesis using assms(2-4)
    by (simp add: process_def Let_def closes_update)
next
  case False
  then have "dropOrEmitHeldToken (st\<lparr>hasThinking := True\<rparr>) = st\<lparr>hasThinking := True\<rparr>"
    by (simp add: dropOrEmitHeldToken_def)
  then show ?thesis using assms False
    by (simp add: process_def Let_def openReasoning_def processThinking_def emitDelta_def emit_def)
qed

lemma process_open:
  assumes "openReasoning i s st"
    and "truthy (trailingSignature st) \<or> reasoningTokenKept (p # post)"
  shows "closes i s st (process mkId toJson st p)
       \<or> (openReasoning i s (process mkId toJson st p)
          \<and> (emitted (process mkId toJson st p) = emitted st
             \<or> (\<exists>u. emitted (process mkId toJson st p) =
                      emitted st @ [ContentBlockDelta i (ThinkingDelta u)]))
          \<and> (truthy (trailingSignature (process mkId toJson st p)) \<or> reasoningTokenKept post))"
proof (cases "p_functionCall p")
  case (Some fc)
  then show ?thesis using call_closes [OF assms(1)] by (simp add: process_def)
next
  case None
  show ?thesis
  proof (cases "p_text p")
    case nt: None
    then show ?thesis using None assms by (simp add: process_def)
  next
    case (Some t)
    show ?thesis
    proof (cases "p_thought p")
      case True
      have "truthy (trailingSignature st) \<or> \<not> truthy (p_thoughtSignature p)"
        using assms(2) None Some True by auto
      from thought_step [OF assms(1) None Some True this, of mkId toJson]
      show ?thesis using assms(2) None Some True by auto
    next
      case False
      show ?thesis
      proof (cases "t = []")
        case True
        then show ?thesis using None Some False assms
          by (auto simp add: process_def openReasoning_def)
      next
        case ne: False
        show ?thesis using plain_closes [OF assms(1) None Some False ne] by simp
      qed
    qed
  qed
qed

lemma closes_follows:
  "closes i s st st' \<Longrightarrow> signatureFollows i s (drop (length (emitted st)) (emitted st'))"
  by (auto simp add: closes_def)

lemma endBlock_emitFinish: "extends (endBlock st) (emitFinish fr st)"
  by (simp add: extends_def emitFinish_def emitTokenBlock_def emitDelta_def emit_def Let_def)

lemma run_open:
  assumes "openReasoning i s st"
    and "truthy (trailingSignature st) \<or> reasoningTokenKept post"
  shows "signatureFollows i s (drop (length (emitted st))
           (emitted (emitFinish fr (foldl (process mkId toJson) st post))))"
  using assms
proof (induction post arbitrary: st)
  case Nil
  have "closes i s st (endBlock st)" using Nil(1) by (rule endBlock_closes)
  then have "closes i s st (emitFinish fr st)" using endBlock_emitFinish by (rule closes_extends)
  then show ?case by (simp add: closes_follows)
next
  case (Cons p post)
  let ?st = "process mkId toJson st p"
  let ?out = "emitFinish fr (foldl (process mkId toJson) ?st post)"
  have ext: "extends ?st ?out" by (rule run_extends)
  from process_open [OF Cons.prems, of mkId toJson]
  consider (closed) "closes i s st ?st"
    | (opened) "openReasoning i s ?st"
        "emitted ?st = emitted st \<or> (\<exists>u. emitted ?st = emitted st @ [ContentBlockDelta i (ThinkingDelta u)])"
        "truthy (trailingSignature ?st) \<or> reasoningTokenKept post"
    by blast
  then show ?case
  proof cases
    case closed
    then have "closes i s st ?out" using ext by (rule closes_extends)
    then show ?thesis by (simp add: closes_follows)
  next
    case opened
    have ih: "signatureFollows i s (drop (length (emitted ?st)) (emitted ?out))"
      using opened(1,3) by (rule Cons.IH)
    obtain ws where ws: "emitted ?out = emitted ?st @ ws"
      using ext by (auto simp add: extends_def)
    from opened(2) show ?thesis
    proof
      assume "emitted ?st = emitted st"
      then show ?thesis using ih by simp
    next
      assume "\<exists>u. emitted ?st = emitted st @ [ContentBlockDelta i (ThinkingDelta u)]"
      then obtain u where u: "emitted ?st = emitted st @ [ContentBlockDelta i (ThinkingDelta u)]"
        by blast
      have "signatureFollows i s ws" using ih ws by simp
      then show ?thesis using ws u by simp
    qed
  qed
qed

lemma signedReasoning_append:
  "signatureFollows i s ws \<Longrightarrow> signedReasoning t s (xs @ ContentBlockDelta i (ThinkingDelta t) # ws)"
  by (induction xs) simp_all

lemma processThinking_opens:
  "blockType (processThinking t st) = BLOCK_THINKING
   \<and> (\<exists>xs. emitted (processThinking t st) =
        xs @ [ContentBlockDelta (blockIndex (processThinking t st)) (ThinkingDelta t)])"
  by (simp add: processThinking_def startBlock_def emitDelta_def emit_def Let_def)

lemma process_reasoning_opens:
  assumes "isReasoning p" "p_text p = Some t" "p_thoughtSignature p = Some s" "s \<noteq> []"
  shows "openReasoning (blockIndex (process mkId toJson st p)) s (process mkId toJson st p)
   \<and> (\<exists>xs. emitted (process mkId toJson st p) =
        xs @ [ContentBlockDelta (blockIndex (process mkId toJson st p)) (ThinkingDelta t)])
   \<and> hasThinking (process mkId toJson st p)"
proof -
  let ?h = "dropOrEmitHeldToken (st\<lparr>hasThinking := True\<rparr>)"
  have p: "process mkId toJson st p = (processThinking t ?h)\<lparr>pending := Some s\<rparr>"
    using assms by (simp add: process_def isReasoning_def Let_def)
  have h: "hasThinking ?h"
    by (simp add: dropOrEmitHeldToken_def emitHeldToken_def startBlock_def endBlock_def
        emitDelta_def emit_def Let_def)
  have "hasThinking (processThinking t x) = hasThinking x" for x
    by (simp add: processThinking_def startBlock_def endBlock_def emitDelta_def emit_def Let_def)
  then show ?thesis using processThinking_opens [of t ?h] assms(4) h
    by (simp add: p openReasoning_def)
qed

lemma stream_reasoning_token:
  assumes "isReasoning p" "p_text p = Some t" "p_thoughtSignature p = Some s" "s \<noteq> []"
    and "reasoningTokenKept post"
  shows "signedReasoning t s (emitted (streamProcess mkId toJson l (pre @ p # post) fr))"
proof -
  define st0 where "st0 = foldl (process mkId toJson) (streamInitial l) pre"
  define st1 where "st1 = process mkId toJson st0 p"
  define out where "out = emitFinish fr (foldl (process mkId toJson) st1 post)"
  define i where "i = blockIndex st1"
  have o: "openReasoning i s st1"
    and "\<exists>xs. emitted st1 = xs @ [ContentBlockDelta i (ThinkingDelta t)]"
    using process_reasoning_opens [OF assms(1-4), of mkId toJson st0]
    by (simp_all add: st1_def i_def)
  then obtain xs where xs: "emitted st1 = xs @ [ContentBlockDelta i (ThinkingDelta t)]"
    by blast
  have "extends st1 out" unfolding out_def by (rule run_extends)
  then obtain ws where ws: "emitted out = emitted st1 @ ws" by (auto simp add: extends_def)
  have "signatureFollows i s (drop (length (emitted st1)) (emitted out))"
    unfolding out_def using o assms(5) by (intro run_open) simp_all
  then have "signatureFollows i s ws" using ws by simp
  then have "signedReasoning t s (xs @ ContentBlockDelta i (ThinkingDelta t) # ws)"
    by (rule signedReasoning_append)
  moreover have "streamProcess mkId toJson l (pre @ p # post) fr = out"
    by (simp add: streamProcess_def out_def st1_def st0_def)
  ultimately show ?thesis using ws xs by simp
qed

lemma grows_refl: "grows st st"
  by (simp add: grows_def)

lemma grows_trans: "grows a b \<Longrightarrow> grows b c \<Longrightarrow> grows a c"
  by (auto simp add: grows_def)

lemma flushText_grows: "grows st (flushText st)"
  by (auto simp add: grows_def flushText_def)

lemma flushThinking_grows: "grows st (flushThinking st)"
  by (auto simp add: grows_def flushThinking_def)

lemma releaseTrailing_grows: "grows st (releaseTrailing st)"
  by (auto simp add: grows_def releaseTrailing_def)

lemma processPart_grows: "grows st (processPart mkId st p)"
  by (auto simp add: grows_def processPart_def nsFunctionCall_def nsThought_def nsPlainText_def
      flushText_def flushThinking_def releaseTrailing_def Let_def split: option.splits)

lemma foldl_processPart_grows: "grows st (foldl (processPart mkId) st ps)"
proof (induction ps arbitrary: st)
  case Nil
  show ?case by (simp add: grows_refl)
next
  case (Cons p ps)
  show ?case using processPart_grows [of st mkId p] Cons.IH [of "processPart mkId st p"]
    by simp (rule grows_trans)
qed

lemma nsFinish_grows: "grows st (nsFinish st)"
  by (auto simp add: grows_def nsFinish_def flushText_def flushThinking_def releaseTrailing_def
      Let_def)

lemma ns_run_grows: "grows st (nsFinish (foldl (processPart mkId) st ps))"
  using foldl_processPart_grows nsFinish_grows by (rule grows_trans)

lemma processPart_open:
  assumes "openThinking s b st"
    and "truthy (ns_trailingSignature st) \<or> reasoningTokenKept (p # post)"
  shows "ThinkingBlock b (Some s) \<in> set (contentBlocks (processPart mkId st p))
       \<or> ((\<exists>u. openThinking s (b @ u) (processPart mkId st p))
          \<and> (truthy (ns_trailingSignature (processPart mkId st p)) \<or> reasoningTokenKept post))"
proof (cases "p_functionCall p")
  case (Some fc)
  then show ?thesis using assms(1)
    by (simp add: openThinking_def processPart_def nsFunctionCall_def flushText_def
        flushThinking_def releaseTrailing_def Let_def)
next
  case None
  show ?thesis
  proof (cases "p_text p")
    case nt: None
    have "\<exists>u. openThinking s (b @ u) st" using assms(1) by (intro exI [of _ "[]"]) simp
    then show ?thesis using None nt assms(2) by (simp add: processPart_def)
  next
    case (Some t)
    show ?thesis
    proof (cases "p_thought p")
      case True
      show ?thesis
      proof (cases "truthy (ns_trailingSignature st)")
        case tr: True
        then show ?thesis using None Some True assms(1)
          by (simp add: openThinking_def processPart_def nsThought_def flushText_def
              flushThinking_def releaseTrailing_def Let_def)
      next
        case False
        then have k: "\<not> truthy (p_thoughtSignature p)" "reasoningTokenKept post"
          using assms(2) None Some True by simp_all
        have "openThinking s (b @ t) (processPart mkId st p)"
          using None Some True False k(1) assms(1)
          by (simp add: openThinking_def processPart_def nsThought_def flushText_def tokenOf_def
              Let_def)
        then show ?thesis using k(2) by blast
      qed
    next
      case False
      show ?thesis
      proof (cases "t = []")
        case True
        have "\<exists>u. openThinking s (b @ u) (processPart mkId st p)"
          using None Some False True assms(1)
          by (intro exI [of _ "[]"]) (simp add: openThinking_def processPart_def nsPlainText_def)
        moreover have "truthy (ns_trailingSignature (processPart mkId st p)) \<or> reasoningTokenKept post"
          using None Some False True assms(2)
          by (auto simp add: processPart_def nsPlainText_def tokenOf_def)
        ultimately show ?thesis by blast
      next
        case ne: False
        then show ?thesis using None Some False assms(1)
          by (simp add: openThinking_def processPart_def nsPlainText_def flushText_def
              flushThinking_def releaseTrailing_def Let_def)
      qed
    qed
  qed
qed

lemma ns_run_open:
  assumes "openThinking s b st"
    and "truthy (ns_trailingSignature st) \<or> reasoningTokenKept post"
  shows "\<exists>u. ThinkingBlock (b @ u) (Some s)
           \<in> set (contentBlocks (nsFinish (foldl (processPart mkId) st post)))"
  using assms
proof (induction post arbitrary: st b)
  case Nil
  have "ThinkingBlock (b @ []) (Some s) \<in> set (contentBlocks (nsFinish st))"
    using Nil(1)
    by (simp add: openThinking_def nsFinish_def flushText_def flushThinking_def
        releaseTrailing_def Let_def)
  then show ?case by (simp only: foldl_Nil) (rule exI)
next
  case (Cons p post)
  let ?st = "processPart mkId st p"
  from processPart_open [OF Cons.prems, of mkId]
  consider (closed) "ThinkingBlock b (Some s) \<in> set (contentBlocks ?st)"
    | (opened) u where "openThinking s (b @ u) ?st"
        "truthy (ns_trailingSignature ?st) \<or> reasoningTokenKept post"
    by blast
  then show ?case
  proof cases
    case closed
    have "grows ?st (nsFinish (foldl (processPart mkId) ?st post))" by (rule ns_run_grows)
    then have "ThinkingBlock (b @ []) (Some s)
        \<in> set (contentBlocks (nsFinish (foldl (processPart mkId) ?st post)))"
      using closed by (auto simp add: grows_def)
    then show ?thesis by (simp only: foldl_Cons) (rule exI)
  next
    case opened
    from Cons.IH [OF opened] obtain v where
      "ThinkingBlock ((b @ u) @ v) (Some s)
        \<in> set (contentBlocks (nsFinish (foldl (processPart mkId) ?st post)))"
      by blast
    then have "ThinkingBlock (b @ (u @ v)) (Some s)
        \<in> set (contentBlocks (nsFinish (foldl (processPart mkId) ?st post)))"
      by simp
    then show ?thesis by (simp only: foldl_Cons) (rule exI)
  qed
qed

lemma startsWith_includes: "startsWith xs t \<Longrightarrow> str_includes xs t"
  by (cases xs) (auto simp add: startsWith_def)

lemma str_includes_middle: "str_includes (a @ t @ b) t"
proof (induction a)
  case Nil
  have "startsWith (t @ b) t" by (simp add: startsWith_def)
  then show ?case by (simp add: startsWith_includes)
next
  case (Cons c a)
  then show ?case by simp
qed

lemma processPart_reasoning_opens:
  assumes "isReasoning p" "p_text p = Some t" "p_thoughtSignature p = Some s" "s \<noteq> []"
  shows "\<exists>a. openThinking s (a @ t) (processPart mkId st p)"
proof -
  have "openThinking s (thinkingBuilder (processPart mkId st p)) (processPart mkId st p)"
    using assms
    by (simp add: openThinking_def processPart_def isReasoning_def nsThought_def tokenOf_def
        Let_def)
  moreover have "\<exists>a. thinkingBuilder (processPart mkId st p) = a @ t"
    using assms
    by (simp add: processPart_def isReasoning_def nsThought_def tokenOf_def Let_def)
  ultimately show ?thesis by auto
qed

lemma ns_reasoning_token:
  assumes "isReasoning p" "p_text p = Some t" "p_thoughtSignature p = Some s" "s \<noteq> []"
    and "reasoningTokenKept post"
  shows "list_ex (signedThinkingBlock t s) (contentBlocks (nsProcess mkId l (pre @ p # post)))"
proof -
  define st0 where "st0 = foldl (processPart mkId) (nsInitial l (pre @ p # post)) pre"
  define st1 where "st1 = processPart mkId st0 p"
  obtain a where a: "openThinking s (a @ t) st1"
    using processPart_reasoning_opens [OF assms(1-4), of mkId st0] by (auto simp add: st1_def)
  have "\<exists>u. ThinkingBlock ((a @ t) @ u) (Some s)
           \<in> set (contentBlocks (nsFinish (foldl (processPart mkId) st1 post)))"
    using a assms(5) by (intro ns_run_open) simp_all
  then obtain u where "ThinkingBlock (a @ t @ u) (Some s)
           \<in> set (contentBlocks (nsFinish (foldl (processPart mkId) st1 post)))"
    by auto
  moreover have "nsProcess mkId l (pre @ p # post) = nsFinish (foldl (processPart mkId) st1 post)"
    by (simp add: nsProcess_def st1_def st0_def)
  moreover have "signedThinkingBlock t s (ThinkingBlock (a @ t @ u) (Some s))"
    by (simp add: str_includes_middle)
  ultimately show ?thesis unfolding list_ex_iff by metis
qed

lemma released_extends: "released s st st' \<Longrightarrow> extends st' st'' \<Longrightarrow> released s st st''"
  unfolding released_def extends_def
proof -
  assume "\<exists>xs i ys. emitted st' = emitted st @ xs @ tokenBlock i s @ ys"
    and "\<exists>zs. emitted st'' = emitted st' @ zs"
  then obtain xs i ys zs where "emitted st'' = emitted st @ xs @ tokenBlock i s @ (ys @ zs)"
    by auto
  then show "\<exists>xs i ys. emitted st'' = emitted st @ xs @ tokenBlock i s @ ys" by blast
qed

lemma extends_released: "extends st st' \<Longrightarrow> released s st' st'' \<Longrightarrow> released s st st''"
  unfolding released_def extends_def
proof -
  assume "\<exists>zs. emitted st' = emitted st @ zs"
    and "\<exists>xs i ys. emitted st'' = emitted st' @ xs @ tokenBlock i s @ ys"
  then obtain xs i ys zs where "emitted st'' = emitted st @ (zs @ xs) @ tokenBlock i s @ ys"
    by auto
  then show "\<exists>xs i ys. emitted st'' = emitted st @ xs @ tokenBlock i s @ ys" by blast
qed

lemma released_update:
  "released s st (st'\<lparr>pending := x\<rparr>) = released s st st'"
  "released s st (st'\<lparr>trailingSignature := y\<rparr>) = released s st st'"
  "released s (st\<lparr>hasThinking := z\<rparr>) st' = released s st st'"
  by (simp_all add: released_def)

lemma endBlock_quiet: "pendingOpen st \<Longrightarrow> \<not> truthy (pending (endBlock st))"
  by (auto simp add: pendingOpen_def endBlock_def emitDelta_def emit_def Let_def)

lemma startBlock_quiet:
  assumes "pendingOpen st"
  shows "\<not> truthy (pending (startBlock ty cb st))"
proof -
  have "\<not> truthy (pending (if blockType st \<noteq> BLOCK_NONE then endBlock st else st))"
    using assms endBlock_quiet [OF assms] by (auto simp add: pendingOpen_def)
  then show ?thesis by (simp add: startBlock_def emit_def Let_def)
qed

lemma quiet_pendingOpen: "\<not> truthy (pending st) \<Longrightarrow> pendingOpen st"
  by (simp add: pendingOpen_def)

lemma emitTokenBlock_released: "released s st (emitTokenBlock s st)"
proof -
  have "emitted (emitTokenBlock s st) = emitted st @ [] @ tokenBlock (blockIndex st) s @ []"
    by (simp add: emitTokenBlock_def tokenBlock_def emitDelta_def emit_def Let_def)
  then show ?thesis unfolding released_def by blast
qed

lemma emitHeldToken_released:
  assumes "pendingOpen st" "trailingSignature st = Some s"
  shows "released s st (emitHeldToken st)" and "\<not> truthy (pending (emitHeldToken st))"
proof -
  define sb where "sb = startBlock BLOCK_THINKING StartThinking st"
  define i where "i = blockIndex sb"
  have q: "\<not> truthy (pending sb)" unfolding sb_def using assms(1) by (rule startBlock_quiet)
  have t: "blockType sb = BLOCK_THINKING" "trailingSignature sb = Some s"
    using assms(2)
    by (simp_all add: sb_def startBlock_def endBlock_def emitDelta_def emit_def Let_def)
  have "\<exists>xs. emitted (if blockType st \<noteq> BLOCK_NONE then endBlock st else st) = emitted st @ xs"
    using endBlock_extends [of st] by (simp add: extends_def)
  then obtain xs where
    "emitted (if blockType st \<noteq> BLOCK_NONE then endBlock st else st) = emitted st @ xs"
    by blast
  then have xs: "emitted sb = emitted st @ xs @ [ContentBlockStart i StartThinking]"
    unfolding sb_def i_def by (simp add: startBlock_def emit_def Let_def)
  have h: "emitHeldToken st = endBlock (emitDelta (SignatureDelta s)
       (emitDelta (ThinkingDelta []) sb))"
    using assms(2) by (simp add: emitHeldToken_def sb_def)
  have "emitted (emitHeldToken st) = emitted sb @ [ContentBlockDelta i (ThinkingDelta []),
      ContentBlockDelta i (SignatureDelta s), ContentBlockStop i]"
    using q t by (simp add: h endBlock_def emitDelta_def emit_def Let_def i_def)
  then have "emitted (emitHeldToken st) = emitted st @ xs @ tokenBlock i s @ []"
    using xs by (simp add: tokenBlock_def)
  then show "released s st (emitHeldToken st)" unfolding released_def by blast
  show "\<not> truthy (pending (emitHeldToken st))"
    using q by (simp add: h endBlock_def emitDelta_def emit_def Let_def)
qed

lemma dropOrEmitHeldToken_released:
  assumes "pendingOpen st" "trailingSignature st = Some s" "s \<noteq> []" "hasThinking st"
  shows "released s st (dropOrEmitHeldToken st)"
  using emitHeldToken_released(1) [OF assms(1,2)] assms(2-4)
  by (simp add: dropOrEmitHeldToken_def released_update)

lemma dropOrEmitHeldToken_pendingOpen:
  assumes "pendingOpen st"
  shows "pendingOpen (dropOrEmitHeldToken st)"
proof (cases "truthy (trailingSignature st) \<and> hasThinking st")
  case True
  then obtain s where "trailingSignature st = Some s" by (cases "trailingSignature st") auto
  from emitHeldToken_released(2) [OF assms this] show ?thesis using True
    by (simp add: dropOrEmitHeldToken_def pendingOpen_def)
next
  case False
  then show ?thesis using assms by (auto simp add: dropOrEmitHeldToken_def pendingOpen_def)
qed

lemma processFunctionCall_quiet:
  assumes "pendingOpen st"
  shows "\<not> truthy (pending (processFunctionCall mkId toJson fc g st))"
proof -
  define toolId where "toolId = (if \<not> truthy (fc_id fc) then mkId (madeIds st) else the (fc_id fc))"
  define u where "u = st\<lparr>madeIds := (if \<not> truthy (fc_id fc) then Suc (madeIds st) else madeIds st),
       streamLedger := rememberToolThoughtSignature (streamLedger st) (Some toolId) g\<rparr>"
  define sb where "sb = startBlock BLOCK_FUNCTION (StartToolUse toolId (fc_name fc) g) u"
  have "pendingOpen u" using assms by (simp add: u_def pendingOpen_def)
  then have q: "\<not> truthy (pending sb)" unfolding sb_def by (rule startBlock_quiet)
  have "processFunctionCall mkId toJson fc g st =
      (case fc_args fc of None \<Rightarrow> sb
       | Some a \<Rightarrow> if jsTruthy a then emitDelta (InputJsonDelta (toJson a)) sb else sb)
      \<lparr>usedTool := True\<rparr>"
    unfolding processFunctionCall_def Let_def sb_def u_def toolId_def by (rule refl)
  then show ?thesis using q by (simp add: emitDelta_def emit_def split: option.splits)
qed

lemma processTextDelta_pendingOpen:
  assumes "pendingOpen st"
  shows "pendingOpen (processTextDelta t st)"
proof -
  have "\<not> truthy (pending (emitDelta d (startBlock BLOCK_TEXT StartText st)))" for d
    using startBlock_quiet [OF assms, of BLOCK_TEXT StartText] by (simp add: emitDelta_def emit_def)
  then have "pendingOpen (emitDelta d (startBlock BLOCK_TEXT StartText st))" for d
    by (rule quiet_pendingOpen)
  moreover have "pendingOpen (emitDelta d st)" for d
    using assms by (simp add: pendingOpen_def emitDelta_def emit_def)
  ultimately show ?thesis using assms by (simp add: processTextDelta_def)
qed

lemma signedText_quiet:
  assumes "pendingOpen st"
  shows "\<not> truthy (pending (emitTokenBlock g (endBlock (emitDelta (TextDelta t)
           (startBlock BLOCK_TEXT StartText (endBlock st))))))"
proof -
  have "\<not> truthy (pending (endBlock st))" using assms by (rule endBlock_quiet)
  then have "pendingOpen (endBlock st)" by (rule quiet_pendingOpen)
  then have "\<not> truthy (pending (startBlock BLOCK_TEXT StartText (endBlock st)))"
    by (rule startBlock_quiet)
  then have "pendingOpen (emitDelta (TextDelta t) (startBlock BLOCK_TEXT StartText (endBlock st)))"
    by (simp add: pendingOpen_def emitDelta_def emit_def)
  then have "\<not> truthy (pending (endBlock (emitDelta (TextDelta t)
      (startBlock BLOCK_TEXT StartText (endBlock st)))))"
    by (rule endBlock_quiet)
  then show ?thesis by (simp add: emitTokenBlock_def emitDelta_def emit_def Let_def)
qed

lemma process_pendingOpen:
  assumes "pendingOpen st"
  shows "pendingOpen (process mkId toJson st p)"
proof (cases "p_functionCall p")
  case (Some fc)
  have "pendingOpen (dropOrEmitHeldToken st)" using assms by (rule dropOrEmitHeldToken_pendingOpen)
  then have "\<not> truthy (pending (processFunctionCall mkId toJson fc (tokenOf p)
      (dropOrEmitHeldToken st)))"
    by (rule processFunctionCall_quiet)
  then show ?thesis using Some by (simp add: process_def pendingOpen_def)
next
  case None
  show ?thesis
  proof (cases "p_text p")
    case nt: None
    then show ?thesis using None assms by (simp add: process_def)
  next
    case (Some t)
    show ?thesis
    proof (cases "p_thought p")
      case True
      have "blockType (processThinking t x) = BLOCK_THINKING" for x
        using processThinking_opens [of t x] by simp
      then show ?thesis using None Some True
        by (simp add: process_def Let_def pendingOpen_def)
    next
      case False
      have d: "pendingOpen (dropOrEmitHeldToken st)"
        using assms by (rule dropOrEmitHeldToken_pendingOpen)
      have a: "pendingOpen (processTextDelta t (dropOrEmitHeldToken st))"
        using d by (rule processTextDelta_pendingOpen)
      have b: "pendingOpen (emitTokenBlock g (endBlock (emitDelta (TextDelta t)
           (startBlock BLOCK_TEXT StartText (endBlock (dropOrEmitHeldToken st))))))" for g
        using signedText_quiet [OF d] by (rule quiet_pendingOpen)
      have c: "pendingOpen (st\<lparr>trailingSignature := y\<rparr>)" for y
        using assms by (simp add: pendingOpen_def)
      show ?thesis using None Some False a b c assms
        by (simp add: process_def Let_def)
    qed
  qed
qed

lemma foldl_process_pendingOpen:
  "pendingOpen st \<Longrightarrow> pendingOpen (foldl (process mkId toJson) st ps)"
  by (induction ps arbitrary: st) (simp_all add: process_pendingOpen)

lemma hasThinking_endBlock: "hasThinking (endBlock st) = hasThinking st"
  by (simp add: endBlock_def emitDelta_def emit_def Let_def)

lemma hasThinking_startBlock: "hasThinking (startBlock ty cb st) = hasThinking st"
  by (simp add: startBlock_def hasThinking_endBlock emit_def Let_def)

lemma hasThinking_emitDelta: "hasThinking (emitDelta d st) = hasThinking st"
  by (simp add: emitDelta_def emit_def)

lemma hasThinking_emitTokenBlock: "hasThinking (emitTokenBlock g st) = hasThinking st"
  by (simp add: emitTokenBlock_def emitDelta_def emit_def Let_def)

lemma hasThinking_dropOrEmitHeldToken: "hasThinking (dropOrEmitHeldToken st) = hasThinking st"
  by (simp add: dropOrEmitHeldToken_def emitHeldToken_def hasThinking_endBlock
      hasThinking_emitDelta hasThinking_startBlock)

lemma hasThinking_processFunctionCall:
  "hasThinking (processFunctionCall mkId toJson fc g st) = hasThinking st"
  by (simp add: processFunctionCall_def Let_def hasThinking_emitDelta hasThinking_startBlock
      split: option.splits)

lemma hasThinking_processThinking: "hasThinking (processThinking t st) = hasThinking st"
  by (simp add: processThinking_def hasThinking_emitDelta hasThinking_startBlock)

lemma hasThinking_processTextDelta: "hasThinking (processTextDelta t st) = hasThinking st"
  by (simp add: processTextDelta_def hasThinking_emitDelta hasThinking_startBlock)

lemma hasThinking_process:
  "hasThinking (process mkId toJson st p) = (hasThinking st \<or> isReasoning p)"
  by (simp add: process_def isReasoning_def Let_def hasThinking_endBlock hasThinking_startBlock
      hasThinking_emitDelta hasThinking_emitTokenBlock hasThinking_dropOrEmitHeldToken
      hasThinking_processFunctionCall hasThinking_processThinking hasThinking_processTextDelta
      split: option.splits)

lemma hasThinking_foldl:
  "hasThinking (foldl (process mkId toJson) st ps) = (hasThinking st \<or> list_ex isReasoning ps)"
  by (induction ps arbitrary: st) (simp_all add: hasThinking_process)

lemma emitsTokenBlock_append: "emitsTokenBlock s (xs @ tokenBlock i s @ ys)"
proof (induction xs)
  case Nil
  show ?case by (simp add: tokenBlock_def)
next
  case (Cons e xs)
  then show ?case by simp
qed

lemma released_emits: "released s st st' \<Longrightarrow> emitsTokenBlock s (emitted st')"
proof -
  assume "released s st st'"
  then obtain xs i ys where "emitted st' = (emitted st @ xs) @ tokenBlock i s @ ys"
    unfolding released_def by auto
  then show ?thesis by (simp only: emitsTokenBlock_append)
qed

lemma process_held:
  assumes "pendingOpen st" "trailingSignature st = Some s" "s \<noteq> []"
    and "heldTokenReleased (hasThinking st) (p # post)"
  shows "released s st (process mkId toJson st p)
       \<or> (process mkId toJson st p = st \<and> heldTokenReleased (hasThinking st) post)"
proof (cases "p_functionCall p")
  case (Some fc)
  then have "hasThinking st" using assms(4) by simp
  then have "released s st (dropOrEmitHeldToken st)"
    using assms(1-3) by (intro dropOrEmitHeldToken_released)
  then have "released s st (processFunctionCall mkId toJson fc (tokenOf p) (dropOrEmitHeldToken st))"
    using processFunctionCall_extends by (rule released_extends)
  then show ?thesis using Some by (simp add: process_def)
next
  case None
  show ?thesis
  proof (cases "p_text p")
    case nt: None
    then show ?thesis using None assms(4) by (simp add: process_def)
  next
    case (Some t)
    show ?thesis
    proof (cases "p_thought p")
      case True
      let ?h = "st\<lparr>hasThinking := True\<rparr>"
      have "released s ?h (dropOrEmitHeldToken ?h)"
        using assms(1-3) by (intro dropOrEmitHeldToken_released) (simp_all add: pendingOpen_def)
      then have "released s ?h (processThinking t (dropOrEmitHeldToken ?h))"
        using processThinking_extends by (rule released_extends)
      then show ?thesis using None Some True
        by (simp add: process_def Let_def released_update)
    next
      case False
      show ?thesis
      proof (cases "t = []")
        case True
        then show ?thesis using None Some False assms(4) by (simp add: process_def)
      next
        case ne: False
        let ?d = "dropOrEmitHeldToken st"
        have "hasThinking st" using None Some False ne assms(4) by simp
        then have r: "released s st ?d"
          using assms(1-3) by (intro dropOrEmitHeldToken_released)
        have "extends ?d (processTextDelta t ?d)" by (rule processTextDelta_extends)
        moreover have "extends ?d (emitTokenBlock g (endBlock (emitDelta (TextDelta t)
           (startBlock BLOCK_TEXT StartText (endBlock ?d)))))" for g
          by (meson endBlock_extends startBlock_extends emitDelta_extends emitTokenBlock_extends
              extends_trans)
        ultimately show ?thesis using None Some False ne released_extends [OF r]
          by (simp add: process_def Let_def)
      qed
    qed
  qed
qed

lemma emitFinish_released:
  assumes "trailingSignature st = Some s" "s \<noteq> []" "hasThinking st"
  shows "released s st (emitFinish fr st)"
proof -
  have k: "trailingSignature (endBlock st) = Some s" "hasThinking (endBlock st)"
    using assms by (simp_all add: endBlock_def emitDelta_def emit_def Let_def)
  have "released s (endBlock st) (emitTokenBlock s (endBlock st))"
    by (rule emitTokenBlock_released)
  moreover have "extends (emitTokenBlock s (endBlock st)) (emitFinish fr st)"
    using k assms(2) by (simp add: emitFinish_def Let_def extends_def emit_def)
  ultimately have "released s (endBlock st) (emitFinish fr st)" by (rule released_extends)
  with endBlock_extends show ?thesis by (rule extends_released)
qed

lemma run_held:
  assumes "pendingOpen st" "trailingSignature st = Some s" "s \<noteq> []"
    and "heldTokenReleased (hasThinking st) post"
  shows "released s st (emitFinish fr (foldl (process mkId toJson) st post))"
  using assms
proof (induction post arbitrary: st)
  case Nil
  then show ?case by (simp add: emitFinish_released)
next
  case (Cons p post)
  from process_held [OF Cons.prems, of mkId toJson]
  show ?case
  proof
    assume "released s st (process mkId toJson st p)"
    then show ?thesis using run_extends by (simp only: foldl_Cons) (rule released_extends)
  next
    assume "process mkId toJson st p = st \<and> heldTokenReleased (hasThinking st) post"
    then show ?thesis using Cons.IH [of st] Cons.prems(1-3) by simp
  qed
qed

lemma stream_held_token:
  assumes "isHolding h" "p_thoughtSignature h = Some s"
    and "heldTokenReleased (list_ex isReasoning pre) post"
  shows "emitsTokenBlock s (emitted (streamProcess mkId toJson l (pre @ h # post) fr))"
proof -
  define st0 where "st0 = foldl (process mkId toJson) (streamInitial l) pre"
  define st1 where "st1 = process mkId toJson st0 h"
  have "pendingOpen (streamInitial l)" by (simp add: pendingOpen_def streamInitial_def)
  then have p0: "pendingOpen st0" unfolding st0_def by (rule foldl_process_pendingOpen)
  have h0: "hasThinking st0 = list_ex isReasoning pre"
    by (simp add: st0_def hasThinking_foldl) (simp add: streamInitial_def)
  have s: "s \<noteq> []" using assms(1,2) by (auto simp add: isHolding_def)
  have st1: "st1 = st0\<lparr>trailingSignature := Some s\<rparr>"
    using assms(1,2) by (simp add: st1_def process_def isHolding_def)
  have "released s st1 (emitFinish fr (foldl (process mkId toJson) st1 post))"
    using p0 h0 s assms(3) by (intro run_held) (simp_all add: st1 pendingOpen_def)
  moreover have "streamProcess mkId toJson l (pre @ h # post) fr =
      emitFinish fr (foldl (process mkId toJson) st1 post)"
    by (simp add: streamProcess_def st1_def st0_def)
  ultimately show ?thesis by (simp add: released_emits)
qed

text \<open>The held token in the message that is built at once.\<close>

lemma processPart_held:
  assumes "ns_trailingSignature st = Some s" "s \<noteq> []" "ns_hasThinking st \<or> \<not> p_thought p"
    and "heldTokenReleased (ns_hasThinking st) (p # post)"
  shows "ThinkingBlock [] (Some s) \<in> set (contentBlocks (processPart mkId st p))
       \<or> (processPart mkId st p = st \<and> heldTokenReleased (ns_hasThinking st) post)"
proof (cases "p_functionCall p")
  case (Some fc)
  then show ?thesis using assms
    by (simp add: processPart_def nsFunctionCall_def flushText_def flushThinking_def
        releaseTrailing_def Let_def)
next
  case None
  show ?thesis
  proof (cases "p_text p")
    case nt: None
    then show ?thesis using None assms(4) by (simp add: processPart_def)
  next
    case (Some t)
    show ?thesis
    proof (cases "p_thought p")
      case True
      then show ?thesis using None Some assms(1-3)
        by (simp add: processPart_def nsThought_def flushText_def flushThinking_def
            releaseTrailing_def Let_def)
    next
      case False
      show ?thesis
      proof (cases "t = []")
        case True
        then show ?thesis using None Some False assms(4)
          by (simp add: processPart_def nsPlainText_def tokenOf_def)
      next
        case ne: False
        then show ?thesis using None Some False assms
          by (simp add: processPart_def nsPlainText_def flushText_def flushThinking_def
              releaseTrailing_def Let_def)
      qed
    qed
  qed
qed

lemma ns_run_held:
  assumes "ns_trailingSignature st = Some s" "s \<noteq> []"
    and "ns_hasThinking st \<or> \<not> list_ex p_thought post"
    and "heldTokenReleased (ns_hasThinking st) post"
  shows "ThinkingBlock [] (Some s) \<in> set (contentBlocks (nsFinish (foldl (processPart mkId) st post)))"
  using assms
proof (induction post arbitrary: st)
  case Nil
  then show ?case
    by (simp add: nsFinish_def flushText_def flushThinking_def releaseTrailing_def Let_def)
next
  case (Cons p post)
  have t: "ns_hasThinking st \<or> \<not> p_thought p" using Cons.prems(3) by auto
  from processPart_held [OF Cons.prems(1,2) t Cons.prems(4), of mkId]
  show ?case
  proof
    assume "ThinkingBlock [] (Some s) \<in> set (contentBlocks (processPart mkId st p))"
    then show ?thesis using ns_run_grows [of "processPart mkId st p" mkId post]
      by (auto simp add: grows_def)
  next
    assume "processPart mkId st p = st \<and> heldTokenReleased (ns_hasThinking st) post"
    then show ?thesis using Cons.IH [of st] Cons.prems(1-3) by auto
  qed
qed

lemma ns_held_token:
  assumes "isHolding h" "p_thoughtSignature h = Some s"
    and "heldTokenReleased (list_ex p_thought (pre @ h # post)) post"
  shows "ThinkingBlock [] (Some s) \<in> set (contentBlocks (nsProcess mkId l (pre @ h # post)))"
proof -
  define ini where "ini = nsInitial l (pre @ h # post)"
  define st0 where "st0 = foldl (processPart mkId) ini pre"
  define st1 where "st1 = processPart mkId st0 h"
  have "grows ini st0" unfolding st0_def by (rule foldl_processPart_grows)
  then have h0: "ns_hasThinking st0 = list_ex p_thought (pre @ h # post)"
    by (simp add: grows_def ini_def nsInitial_def)
  have s: "s \<noteq> []" using assms(1,2) by (auto simp add: isHolding_def)
  have st1: "st1 = st0\<lparr>ns_trailingSignature := Some s\<rparr>"
    using assms(1,2) s by (simp add: st1_def processPart_def isHolding_def nsPlainText_def tokenOf_def)
  have "ThinkingBlock [] (Some s)
      \<in> set (contentBlocks (nsFinish (foldl (processPart mkId) st1 post)))"
    using h0 s assms(3) by (intro ns_run_held) (auto simp add: st1)
  moreover have "nsProcess mkId l (pre @ h # post) = nsFinish (foldl (processPart mkId) st1 post)"
    by (simp add: nsProcess_def st1_def st0_def ini_def)
  ultimately show ?thesis by simp
qed

text \<open>
  Claim C1, as the code has it. For every response, in the message built at once and in
  the stream: the tool invocations carry, in order, exactly the tokens of the function
  call parts. The token of a reasoning part is written on the block that holds the text of
  that part, provided no later reasoning part brings a token of its own before the block is
  closed. The token of an empty text part leaves as a zero-length reasoning block of its own,
  provided no later empty text part replaces it before it is released and the processor
  knows of reasoning when it releases it: the message looks at the whole response, the
  stream only at the parts received so far. A response without any part that has
  \<^verbatim>\<open>thought\<close> set yields no reasoning block at all.
\<close>

theorem token_placement:
  "(nsToolUses (contentBlocks (nsProcess mkId l ps)) = calledTools ps
    \<and> streamToolUses (emitted (streamProcess mkId toJson l ps fr)) = calledTools ps)
   \<and> (isReasoning p \<and> p_text p = Some t \<and> p_thoughtSignature p = Some s \<and> s \<noteq> []
        \<and> reasoningTokenKept after
      \<longrightarrow> list_ex (signedThinkingBlock t s) (contentBlocks (nsProcess mkId l (before @ p # after)))
        \<and> signedReasoning t s (emitted (streamProcess mkId toJson l (before @ p # after) fr)))
   \<and> (isHolding h \<and> p_thoughtSignature h = Some g
        \<and> heldTokenReleased (list_ex p_thought (pre @ h # post)) post
      \<longrightarrow> ThinkingBlock [] (Some g) \<in> set (contentBlocks (nsProcess mkId l (pre @ h # post))))
   \<and> (isHolding h \<and> p_thoughtSignature h = Some g
        \<and> heldTokenReleased (list_ex isReasoning pre) post
      \<longrightarrow> emitsTokenBlock g (emitted (streamProcess mkId toJson l (pre @ h # post) fr)))
   \<and> (\<not> list_ex p_thought qs
      \<longrightarrow> filter isThinkingBlock (contentBlocks (nsProcess mkId l qs)) = []
        \<and> filter isThinkingEvent (emitted (streamProcess mkId toJson l qs fr)) = [])"
proof (intro conjI impI)
  show "nsToolUses (contentBlocks (nsProcess mkId l ps)) = calledTools ps"
    by (rule nsProcess_tools)
  show "streamToolUses (emitted (streamProcess mkId toJson l ps fr)) = calledTools ps"
    by (rule streamProcess_tools)
next
  assume a: "isReasoning p \<and> p_text p = Some t \<and> p_thoughtSignature p = Some s \<and> s \<noteq> []
        \<and> reasoningTokenKept after"
  then show "list_ex (signedThinkingBlock t s)
      (contentBlocks (nsProcess mkId l (before @ p # after)))"
    by (intro ns_reasoning_token) simp_all
  from a show "signedReasoning t s (emitted (streamProcess mkId toJson l (before @ p # after) fr))"
    by (intro stream_reasoning_token) simp_all
next
  assume "isHolding h \<and> p_thoughtSignature h = Some g
        \<and> heldTokenReleased (list_ex p_thought (pre @ h # post)) post"
  then show "ThinkingBlock [] (Some g) \<in> set (contentBlocks (nsProcess mkId l (pre @ h # post)))"
    by (intro ns_held_token) simp_all
next
  assume "isHolding h \<and> p_thoughtSignature h = Some g
        \<and> heldTokenReleased (list_ex isReasoning pre) post"
  then show "emitsTokenBlock g (emitted (streamProcess mkId toJson l (pre @ h # post) fr))"
    by (intro stream_held_token) simp_all
next
  assume n: "\<not> list_ex p_thought qs"
  then show "filter isThinkingBlock (contentBlocks (nsProcess mkId l qs)) = []"
    by (rule nsProcess_plain)
  from n show "filter isThinkingEvent (emitted (streamProcess mkId toJson l qs fr)) = []"
    by (rule streamProcess_plain)
qed

theorem token_placement_witness:
  "isReasoning (thoughtPart ''b'' (Some ''B''))
   \<and> reasoningTokenKept [plainPart ''x'' None, plainPart [] (Some ''U'')]
   \<and> isHolding (plainPart [] (Some ''U''))
   \<and> heldTokenReleased (list_ex p_thought sampleParts) []
   \<and> heldTokenReleased (list_ex isReasoning (butlast sampleParts)) []
   \<and> \<not> list_ex p_thought (take 2 sampleParts)
   \<and> nsToolUses (sampleMessageOf sampleParts) = calledTools sampleParts
   \<and> streamToolUses (sampleStreamOf sampleParts) = calledTools sampleParts
   \<and> list_ex (signedThinkingBlock ''b'' ''B'') (sampleMessageOf sampleParts)
   \<and> signedReasoning ''b'' ''B'' (sampleStreamOf sampleParts)
   \<and> ThinkingBlock [] (Some ''U'') \<in> set (sampleMessageOf sampleParts)
   \<and> emitsTokenBlock ''U'' (sampleStreamOf sampleParts)
   \<and> filter isThinkingBlock (sampleMessageOf (take 2 sampleParts)) = []
   \<and> filter isThinkingEvent (sampleStreamOf (take 2 sampleParts)) = []"
proof -
  have r: "isReasoning (thoughtPart ''b'' (Some ''B''))"
    "p_text (thoughtPart ''b'' (Some ''B'')) = Some ''b''"
    "p_thoughtSignature (thoughtPart ''b'' (Some ''B'')) = Some ''B''"
    by (simp_all add: isReasoning_def thoughtPart_def emptyPart_def)
  have k: "reasoningTokenKept [plainPart ''x'' None, plainPart [] (Some ''U'')]"
    by (simp add: plainPart_def emptyPart_def)
  have h: "isHolding (plainPart [] (Some ''U''))"
    "p_thoughtSignature (plainPart [] (Some ''U'')) = Some ''U''"
    by (simp_all add: isHolding_def plainPart_def emptyPart_def)
  have e1: "sampleParts = [plainPart [] (Some ''T''), callPart ''c1'' ''f'' (Some ''F'')]
      @ thoughtPart ''b'' (Some ''B'') # [plainPart ''x'' None, plainPart [] (Some ''U'')]"
    by (simp add: sampleParts_def)
  have e2: "sampleParts = butlast sampleParts @ plainPart [] (Some ''U'') # []"
    by (simp add: sampleParts_def)
  have s1: "heldTokenReleased (list_ex p_thought sampleParts) []"
    by (simp add: sampleParts_def thoughtPart_def emptyPart_def)
  have s2: "heldTokenReleased (list_ex isReasoning (butlast sampleParts)) []"
    by (simp add: sampleParts_def isReasoning_def thoughtPart_def callPart_def emptyPart_def)
  have n: "\<not> list_ex p_thought (take 2 sampleParts)"
    by (simp add: sampleParts_def plainPart_def callPart_def emptyPart_def)
  note inst = token_placement [where mkId = "\<lambda>n. ''toolu''" and toJson = "\<lambda>j. ''{}''"
      and l = Map.empty and fr = "Some ''STOP''" and ps = sampleParts
      and p = "thoughtPart ''b'' (Some ''B'')" and t = "''b''" and s = "''B''"
      and before = "[plainPart [] (Some ''T''), callPart ''c1'' ''f'' (Some ''F'')]"
      and after = "[plainPart ''x'' None, plainPart [] (Some ''U'')]"
      and h = "plainPart [] (Some ''U'')" and g = "''U''"
      and pre = "butlast sampleParts" and post = "[]" and qs = "take 2 sampleParts",
      folded e1 e2 sampleStreamOf_def sampleMessageOf_def]
  show ?thesis using inst r k h s1 s2 n by simp
qed

text \<open>
  Two reasoning parts in a row, each with a token: both processors produce one block whose
  only token is the second one, and the token \<^verbatim>\<open>A\<close> of the first part is on no block. And a
  token held before any reasoning part has arrived is dropped by the stream although the
  response contains reasoning.
\<close>

theorem superseded_token_counterexample:
  "isReasoning (thoughtPart ''a'' (Some ''A''))
   \<and> sampleMessageOf [thoughtPart ''a'' (Some ''A''), thoughtPart ''b'' (Some ''B'')]
       = [ThinkingBlock ''ab'' (Some ''B'')]
   \<and> sampleStreamOf [thoughtPart ''a'' (Some ''A''), thoughtPart ''b'' (Some ''B'')]
       = [ContentBlockStart 0 StartThinking, ContentBlockDelta 0 (ThinkingDelta ''a''),
          ContentBlockDelta 0 (ThinkingDelta ''b''), ContentBlockDelta 0 (SignatureDelta ''B''),
          ContentBlockStop 0, MessageDelta ''end_turn'', MessageStop]
   \<and> sampleStreamOf [plainPart [] (Some ''T''), plainPart ''x'' None, thoughtPart ''b'' None]
       = [ContentBlockStart 0 StartText, ContentBlockDelta 0 (TextDelta ''x''),
          ContentBlockStop 0, ContentBlockStart 1 StartThinking,
          ContentBlockDelta 1 (ThinkingDelta ''b''), ContentBlockStop 1,
          MessageDelta ''end_turn'', MessageStop]"
  by code_simp

end
